theory Spec2Isabelle
  imports Complex_Main "HOL-Library.Log_Nat" "HOL-Library.AList" "HOL-Library.Sublist"
begin

section \<open>Python values used by the texture downscaler\<close>

text \<open>
  The program is \<^verbatim>\<open>src/tools/downscale_texture.py\<close>. Its integers are Python's
  unbounded integers (\<^typ>\<open>int\<close>), its strings are byte strings in UTF-8
  (\<^typ>\<open>string\<close>), and every exception it can raise is a value: the class of the
  exception together with the text that \<^verbatim>\<open>str(e)\<close> gives.
\<close>

datatype exn_kind =
    FileNotFoundError | NotADirectoryError | IsADirectoryError | FileExistsError
  | ZeroDivisionError | OverflowError | ValueError | OSError | UnidentifiedImageError

datatype exn = Exn exn_kind string

fun exn_class :: "exn \<Rightarrow> exn_kind" where
  "exn_class (Exn k m) = k"

fun str_exn :: "exn \<Rightarrow> string" where
  "str_exn (Exn k m) = m"

subsection \<open>Floating point: IEEE 754 binary64, round to nearest, ties to even\<close>

text \<open>
  A finite Python float is the rational number it denotes. \<open>floor_log2 x\<close> is the
  exponent \<open>e\<close> with \<open>2 powi e \<le> x < 2 powi (e + 1)\<close> of a positive \<open>x\<close>;
  \<open>double_round\<close> rounds a rational to the nearest double (53 bits of precision,
  gradual underflow below \<open>2 powi (-1022)\<close>) and is \<open>None\<close> when the rounded value
  is beyond the largest double.
\<close>

definition floor_log2 :: "rat \<Rightarrow> int" where
  "floor_log2 x = (if 1 \<le> x then bitlen \<lfloor>x\<rfloor> - 1 else - bitlen (\<lceil>1 / x\<rceil> - 1))"

definition round_half_even :: "rat \<Rightarrow> int" where
  "round_half_even q =
     (let f = \<lfloor>q\<rfloor>; r = q - of_int f
      in if r < 1 / 2 then f else if 1 / 2 < r then f + 1 else if even f then f else f + 1)"

definition double_round :: "rat \<Rightarrow> rat option" where
  "double_round x =
     (if x = 0 then Some 0
      else let e = max (floor_log2 \<bar>x\<bar>) (- 1022);
               ulp = power_int 2 (e - 52);
               y = of_int (round_half_even (x / ulp)) * ulp
           in if power_int 2 1024 \<le> \<bar>y\<bar> then None else Some y)"

datatype pyfloat = Finite rat | Infinity

text \<open>\<^verbatim>\<open>a / b\<close> on two ints: the correctly rounded quotient, or an exception.\<close>

definition int_truediv :: "int \<Rightarrow> int \<Rightarrow> exn + rat" where
  "int_truediv a b =
     (if b = 0 then Inl (Exn ZeroDivisionError ''division by zero'')
      else case double_round (of_int a / of_int b) of
             None \<Rightarrow> Inl (Exn OverflowError ''integer division result too large for a float'')
           | Some r \<Rightarrow> Inr r)"

text \<open>\<^verbatim>\<open>n * x\<close> with an int \<open>n\<close> and a float \<open>x\<close>: the int is converted to a float
  first (an exception when it is too large), the product is rounded and overflows to
  infinity.\<close>

definition float_of_int :: "int \<Rightarrow> exn + rat" where
  "float_of_int n =
     (case double_round (of_int n) of
        None \<Rightarrow> Inl (Exn OverflowError ''int too large to convert to float'')
      | Some r \<Rightarrow> Inr r)"

definition float_mul :: "rat \<Rightarrow> rat \<Rightarrow> pyfloat" where
  "float_mul x y = (case double_round (x * y) of None \<Rightarrow> Infinity | Some r \<Rightarrow> Finite r)"

definition int_mul_float :: "int \<Rightarrow> rat \<Rightarrow> exn + pyfloat" where
  "int_mul_float n x =
     (case float_of_int n of Inl e \<Rightarrow> Inl e | Inr f \<Rightarrow> Inr (float_mul f x))"

text \<open>\<^verbatim>\<open>int(x)\<close> on a float truncates toward zero.\<close>

definition trunc :: "rat \<Rightarrow> int" where
  "trunc r = (if 0 \<le> r then \<lfloor>r\<rfloor> else \<lceil>r\<rceil>)"

definition int_of_float :: "pyfloat \<Rightarrow> exn + int" where
  "int_of_float x =
     (case x of
        Finite r \<Rightarrow> Inr (trunc r)
      | Infinity \<Rightarrow> Inl (Exn OverflowError ''cannot convert float infinity to integer''))"

section \<open>Target dimensions\<close>

text \<open>
  Lines 46 to 54 of \<^verbatim>\<open>downscale_texture\<close>: the value of the local \<^verbatim>\<open>new_size\<close>.
  \<open>scaled n ratio\<close> is \<^verbatim>\<open>int(n * ratio)\<close>; the tuple is evaluated left to right.
\<close>

definition scaled :: "int \<Rightarrow> rat \<Rightarrow> exn + int" where
  "scaled n ratio =
     (case int_mul_float n ratio of Inl e \<Rightarrow> Inl e | Inr p \<Rightarrow> int_of_float p)"

definition new_size :: "int \<times> int \<Rightarrow> int \<Rightarrow> bool \<Rightarrow> exn + (int \<times> int)" where
  "new_size original_size target_size maintain_aspect =
     (if maintain_aspect then
        (case int_truediv target_size (max (fst original_size) (snd original_size)) of
           Inl e \<Rightarrow> Inl e
         | Inr ratio \<Rightarrow>
            (case scaled (fst original_size) ratio of
               Inl e \<Rightarrow> Inl e
             | Inr w \<Rightarrow>
                (case scaled (snd original_size) ratio of
                   Inl e \<Rightarrow> Inl e
                 | Inr h \<Rightarrow> Inr (max 1 w, max 1 h))))
      else Inr (target_size, target_size))"

section \<open>Strings and paths\<close>

text \<open>
  \<^verbatim>\<open>str.lower()\<close> on the ASCII letters (no other character lowers to a letter
  of the extensions the program compares with), \<^verbatim>\<open>str(n)\<close> on an int, and
  \<^verbatim>\<open>pathlib.PurePosixPath\<close>: a path is its anchor (empty, one slash or two
  slashes) and the list of its names.
\<close>

definition lower_char :: "char \<Rightarrow> char" where
  "lower_char c =
     (let n = (of_char c :: nat) in if 65 \<le> n \<and> n \<le> 90 then char_of (n + 32) else c)"

definition lower :: "string \<Rightarrow> string" where
  "lower s = map lower_char s"

definition digit_char :: "nat \<Rightarrow> char" where
  "digit_char d = ''0123456789'' ! d"

fun str_nat :: "nat \<Rightarrow> string" where
  "str_nat n = (if n < 10 then [digit_char n] else str_nat (n div 10) @ [digit_char (n mod 10)])"

declare str_nat.simps [simp del]

definition str_int :: "int \<Rightarrow> string" where
  "str_int i = (if i < 0 then CHR ''-'' # str_nat (nat (- i)) else str_nat (nat i))"

fun split_on :: "char \<Rightarrow> string \<Rightarrow> string list" where
  "split_on s [] = [[]]"
| "split_on s (c # cs) =
     (if c = s then [] # split_on s cs
      else (case split_on s cs of [] \<Rightarrow> [[c]] | x # xs \<Rightarrow> (c # x) # xs))"

fun join_slash :: "string list \<Rightarrow> string" where
  "join_slash [] = []"
| "join_slash [x] = x"
| "join_slash (x # y # ys) = x @ CHR ''/'' # join_slash (y # ys)"

record path =
  anchor :: string
  names :: "string list"

definition Path :: "string \<Rightarrow> path" where
  "Path s =
     (let k = length (takeWhile (\<lambda>c. c = CHR ''/'') s)
      in \<lparr> anchor = (if k = 0 then [] else if k = 2 then ''//'' else ''/''),
           names = filter (\<lambda>x. x \<noteq> [] \<and> x \<noteq> ''.'') (split_on CHR ''/'' s) \<rparr>)"

definition str_path :: "path \<Rightarrow> string" where
  "str_path p =
     (if anchor p = [] \<and> names p = [] then ''.'' else anchor p @ join_slash (names p))"

definition path_name :: "path \<Rightarrow> string" where
  "path_name p = (if names p = [] then [] else last (names p))"

fun rfind :: "char \<Rightarrow> string \<Rightarrow> int" where
  "rfind c [] = - 1"
| "rfind c (x # xs) =
     (let r = rfind c xs in if 0 \<le> r then r + 1 else if x = c then 0 else - 1)"

definition name_suffix :: "string \<Rightarrow> string" where
  "name_suffix name =
     (let i = rfind CHR ''.'' name
      in if 0 < i \<and> i < int (length name) - 1 then drop (nat i) name else [])"

definition name_stem :: "string \<Rightarrow> string" where
  "name_stem name =
     (let i = rfind CHR ''.'' name
      in if 0 < i \<and> i < int (length name) - 1 then take (nat i) name else name)"

definition path_suffix :: "path \<Rightarrow> string" where
  "path_suffix p = name_suffix (path_name p)"

definition path_stem :: "path \<Rightarrow> string" where
  "path_stem p = name_stem (path_name p)"

definition path_parent :: "path \<Rightarrow> path" where
  "path_parent p = p\<lparr>names := butlast (names p)\<rparr>"

text \<open>The operator \<^verbatim>\<open>p / s\<close> with a string on the right.\<close>

definition joinpath :: "path \<Rightarrow> string \<Rightarrow> path" where
  "joinpath p s =
     (let q = Path s in if anchor q \<noteq> [] then q else p\<lparr>names := names p @ names q\<rparr>)"

text \<open>
  The output file of \<^verbatim>\<open>downscale_texture\<close> (lines 59 to 63): the value of the
  local \<^verbatim>\<open>output_file\<close>.
\<close>

definition output_file :: "path \<Rightarrow> string option \<Rightarrow> int \<Rightarrow> path" where
  "output_file input_file output_path target_size =
     (case output_path of
        None \<Rightarrow>
          joinpath (path_parent input_file)
            (path_stem input_file @ ''_'' @ str_int target_size @ ''x'' @ str_int target_size
               @ path_suffix input_file)
      | Some out \<Rightarrow> Path out)"

section \<open>The environment: file system, image library, standard output\<close>

text \<open>
  The program runs against a file system and the Pillow library. The file system is a
  tree of directories (the entries in listing order) and files; a file holds an encoded
  picture or bytes that no decoder accepts. A picture is known by its mode and its size;
  pixels are not modelled. A name is looked up as it is written: symbolic links,
  \<^verbatim>\<open>..\<close> and permissions are not interpreted.
\<close>

record image =
  img_mode :: string
  img_size :: "int \<times> int"

datatype content = Picture image | Garbage

datatype node = File content | Dir "(string \<times> node) list"

text \<open>
  What the program does to its environment is recorded in order: each line it prints and
  each call it makes to the image library, with the arguments of the call.
\<close>

datatype event =
    Print string
  | ImageOpen string
  | Resize "int \<times> int"
  | Convert string
  | Save path image

record world =
  fs :: node
  cwd :: "string list"
  events :: "event list"

definition emit :: "world \<Rightarrow> event \<Rightarrow> world" where
  "emit w ev = w\<lparr>events := events w @ [ev]\<rparr>"

definition print :: "world \<Rightarrow> string \<Rightarrow> world" where
  "print w s = emit w (Print s)"

subsection \<open>Errors of the operating system\<close>

definition quote :: "string \<Rightarrow> string" where
  "quote s = CHR 0x27 # s @ [CHR 0x27]"

fun strerror :: "exn_kind \<Rightarrow> string" where
  "strerror FileNotFoundError = ''[Errno 2] No such file or directory''"
| "strerror FileExistsError = ''[Errno 17] File exists''"
| "strerror NotADirectoryError = ''[Errno 20] Not a directory''"
| "strerror IsADirectoryError = ''[Errno 21] Is a directory''"
| "strerror k = []"

definition os_error :: "exn_kind \<Rightarrow> string \<Rightarrow> exn" where
  "os_error k filename = Exn k (strerror k @ '': '' @ quote filename)"

subsection \<open>Looking up, listing, creating\<close>

fun lookup :: "node \<Rightarrow> string list \<Rightarrow> node option" where
  "lookup n [] = Some n"
| "lookup (File c) (x # xs) = None"
| "lookup (Dir es) (x # xs) = (case map_of es x of None \<Rightarrow> None | Some n \<Rightarrow> lookup n xs)"

definition location :: "world \<Rightarrow> path \<Rightarrow> string list" where
  "location w p = (if anchor p = [] then cwd w @ names p else names p)"

definition stat :: "world \<Rightarrow> path \<Rightarrow> node option" where
  "stat w p = lookup (fs w) (location w p)"

definition path_exists :: "world \<Rightarrow> path \<Rightarrow> bool" where
  "path_exists w p = (stat w p \<noteq> None)"

definition is_dir :: "world \<Rightarrow> path \<Rightarrow> bool" where
  "is_dir w p = (case stat w p of Some (Dir es) \<Rightarrow> True | _ \<Rightarrow> False)"

definition holds_file :: "node option \<Rightarrow> bool" where
  "holds_file m = (case m of Some (File c) \<Rightarrow> True | _ \<Rightarrow> False)"

definition is_file :: "world \<Rightarrow> path \<Rightarrow> bool" where
  "is_file w p = holds_file (stat w p)"

text \<open>\<^verbatim>\<open>Path.iterdir\<close> appends each listed name to the path, without parsing it.\<close>

definition child :: "path \<Rightarrow> string \<Rightarrow> path" where
  "child p name = p\<lparr>names := names p @ [name]\<rparr>"

definition iterdir :: "world \<Rightarrow> path \<Rightarrow> exn + path list" where
  "iterdir w p =
     (case stat w p of
        Some (Dir es) \<Rightarrow> Inr (map (\<lambda>e. child p (fst e)) es)
      | Some (File c) \<Rightarrow> Inl (os_error NotADirectoryError (str_path p))
      | None \<Rightarrow> Inl (os_error FileNotFoundError (str_path p)))"

text \<open>
  \<^verbatim>\<open>Path.mkdir(parents=True, exist_ok=True)\<close>: missing directories are created along
  the path, an existing directory is left alone, a file in the way is an error.
\<close>

fun new_dirs :: "string list \<Rightarrow> node" where
  "new_dirs [] = Dir []"
| "new_dirs (x # xs) = Dir [(x, new_dirs xs)]"

fun mkdirs :: "node \<Rightarrow> string list \<Rightarrow> exn_kind + node" where
  "mkdirs (Dir es) [] = Inr (Dir es)"
| "mkdirs (File c) [] = Inl FileExistsError"
| "mkdirs (File c) (x # xs) = Inl NotADirectoryError"
| "mkdirs (Dir es) (x # xs) =
     (case map_of es x of
        None \<Rightarrow> Inr (Dir (es @ [(x, new_dirs xs)]))
      | Some n \<Rightarrow>
         (case mkdirs n xs of
            Inl k \<Rightarrow> Inl k
          | Inr n' \<Rightarrow> Inr (Dir (AList.update x n' es))))"

definition mkdir :: "world \<Rightarrow> path \<Rightarrow> exn + world" where
  "mkdir w p =
     (case mkdirs (fs w) (location w p) of
        Inl k \<Rightarrow> Inl (os_error k (str_path p))
      | Inr n \<Rightarrow> Inr (w\<lparr>fs := n\<rparr>))"

text \<open>
  Opening a file for writing creates it or replaces its content; the directory that is
  to hold it must exist.
\<close>

fun write_node :: "node \<Rightarrow> string list \<Rightarrow> content \<Rightarrow> exn_kind + node" where
  "write_node (Dir es) [] c = Inl IsADirectoryError"
| "write_node (File old) [] c = Inr (File c)"
| "write_node (File old) (x # xs) c = Inl NotADirectoryError"
| "write_node (Dir es) (x # xs) c =
     (case map_of es x of
        None \<Rightarrow> (if xs = [] then Inr (Dir (es @ [(x, File c)])) else Inl FileNotFoundError)
      | Some n \<Rightarrow>
         (case write_node n xs c of
            Inl k \<Rightarrow> Inl k
          | Inr n' \<Rightarrow> Inr (Dir (AList.update x n' es))))"

subsection \<open>The image library\<close>

text \<open>
  Pillow's \<^verbatim>\<open>Image.open\<close>, \<^verbatim>\<open>resize\<close>, \<^verbatim>\<open>convert\<close> and \<^verbatim>\<open>save\<close>. The
  codec of the model knows the four formats of the program's allow-list; \<^verbatim>\<open>save\<close>
  picks the format by the extension that \<^verbatim>\<open>os.path.splitext\<close> finds, refuses an
  unknown extension, opens the file for writing and refuses a mode the format cannot
  hold (the file it had created is then removed, a file that existed is left empty).
  Limits of memory and of the size of a picture are not modelled.
\<close>

datatype format = PNG | GIF | JPEG | BMP

definition splitext_ext :: "string \<Rightarrow> string" where
  "splitext_ext name =
     (let i = rfind CHR ''.'' name
      in if 0 \<le> i \<and> list_ex (\<lambda>c. c \<noteq> CHR ''.'') (take (nat i) name)
         then drop (nat i) name else [])"

definition registered_format :: "string \<Rightarrow> format option" where
  "registered_format ext =
     (if ext = ''.png'' then Some PNG
      else if ext = ''.gif'' then Some GIF
      else if ext = ''.jpg'' \<or> ext = ''.jpeg'' then Some JPEG
      else if ext = ''.bmp'' then Some BMP
      else None)"

fun format_name :: "format \<Rightarrow> string" where
  "format_name PNG = ''PNG''"
| "format_name GIF = ''GIF''"
| "format_name JPEG = ''JPEG''"
| "format_name BMP = ''BMP''"

fun writable :: "format \<Rightarrow> string \<Rightarrow> bool" where
  "writable PNG m = (m \<in> set [''1'', ''L'', ''LA'', ''I'', ''I;16'', ''P'', ''RGB'', ''RGBA''])"
| "writable GIF m = True"
| "writable JPEG m = (m \<in> set [''1'', ''L'', ''RGB'', ''RGBX'', ''CMYK'', ''YCbCr''])"
| "writable BMP m = (m \<in> set [''1'', ''L'', ''P'', ''RGB'', ''RGBA''])"

text \<open>The modes of Pillow that carry an alpha band.\<close>

definition has_alpha :: "string \<Rightarrow> bool" where
  "has_alpha m = (m \<in> set [''RGBA'', ''LA'', ''PA'', ''RGBa'', ''La''])"

definition image_open :: "world \<Rightarrow> string \<Rightarrow> (exn + image) \<times> world" where
  "image_open w filename =
     (let w1 = emit w (ImageOpen filename)
      in if filename = [] then (Inl (os_error FileNotFoundError filename), w1)
         else case stat w (Path filename) of
                None \<Rightarrow> (Inl (os_error FileNotFoundError filename), w1)
              | Some (Dir es) \<Rightarrow> (Inl (os_error IsADirectoryError filename), w1)
              | Some (File c) \<Rightarrow>
                  if last filename = CHR ''/''
                  then (Inl (os_error NotADirectoryError filename), w1)
                  else (case c of
                          Garbage \<Rightarrow>
                            (Inl (Exn UnidentifiedImageError
                                   (''cannot identify image file '' @ quote filename)), w1)
                        | Picture img \<Rightarrow> (Inr img, w1)))"

definition image_resize :: "world \<Rightarrow> image \<Rightarrow> int \<times> int \<Rightarrow> (exn + image) \<times> world" where
  "image_resize w img sz =
     (let w1 = emit w (Resize sz)
      in if fst sz < 1 \<or> snd sz < 1
         then (Inl (Exn ValueError ''height and width must be > 0''), w1)
         else (Inr (img\<lparr>img_size := sz\<rparr>), w1))"

definition image_convert :: "world \<Rightarrow> image \<Rightarrow> string \<Rightarrow> image \<times> world" where
  "image_convert w img m = (img\<lparr>img_mode := m\<rparr>, emit w (Convert m))"

definition image_save :: "world \<Rightarrow> image \<Rightarrow> path \<Rightarrow> (exn + unit) \<times> world" where
  "image_save w img p =
     (let w1 = emit w (Save p img);
          ext = lower (splitext_ext (path_name p))
      in case registered_format ext of
           None \<Rightarrow> (Inl (Exn ValueError (''unknown file extension: '' @ ext)), w1)
         | Some fmt \<Rightarrow>
             let ok = writable fmt (img_mode img);
                 existed = path_exists w p
             in case write_node (fs w) (location w p) (if ok then Picture img else Garbage) of
                  Inl k \<Rightarrow> (Inl (os_error k (str_path p)), w1)
                | Inr n \<Rightarrow>
                    if ok then (Inr (), w1\<lparr>fs := n\<rparr>)
                    else (Inl (Exn OSError
                                (''cannot write mode '' @ img_mode img @ '' as '' @ format_name fmt)),
                          if existed then w1\<lparr>fs := n\<rparr> else w1))"

section \<open>The program\<close>

definition check_mark :: string where
  "check_mark = [CHR 0xE2, CHR 0x9C, CHR 0x93]"

definition cross_mark :: string where
  "cross_mark = [CHR 0xE2, CHR 0x9C, CHR 0x97]"

definition arrow :: string where
  "arrow = [CHR 0xE2, CHR 0x86, CHR 0x92]"

text \<open>Lines 65 to 72: how the downscaled picture is saved.\<close>

definition save_downscaled :: "world \<Rightarrow> image \<Rightarrow> path \<Rightarrow> (exn + unit) \<times> world" where
  "save_downscaled w downscaled out =
     (if lower (path_suffix out) \<in> set [''.png'', ''.gif'']
      then image_save w downscaled out
      else if img_mode downscaled = ''RGBA''
           then (case image_convert w downscaled ''RGB'' of
                   (converted, w1) \<Rightarrow> image_save w1 converted out)
           else image_save w downscaled out)"

definition downscale_texture ::
  "world \<Rightarrow> string \<Rightarrow> string option \<Rightarrow> int \<Rightarrow> bool \<Rightarrow> (exn + string) \<times> world" where
  "downscale_texture w input_path output_path target_size maintain_aspect =
     (let input_file = Path input_path
      in if \<not> path_exists w input_file
         then (Inl (Exn FileNotFoundError (''Input file not found: '' @ input_path)), w)
         else case image_open w input_path of
                (Inl e, w1) \<Rightarrow> (Inl e, w1)
              | (Inr img, w1) \<Rightarrow>
                  let original_size = img_size img
                  in case new_size original_size target_size maintain_aspect of
                       Inl e \<Rightarrow> (Inl e, w1)
                     | Inr ns \<Rightarrow>
                        (case image_resize w1 img ns of
                           (Inl e, w2) \<Rightarrow> (Inl e, w2)
                         | (Inr downscaled, w2) \<Rightarrow>
                             let out = output_file input_file output_path target_size
                             in case save_downscaled w2 downscaled out of
                                  (Inl e, w3) \<Rightarrow> (Inl e, w3)
                                | (Inr u, w3) \<Rightarrow>
                                    (Inr (str_path out),
                                     print
                                       (print w3
                                          (check_mark @ '' Downscaled: ''
                                             @ str_int (fst original_size) @ ''x''
                                             @ str_int (snd original_size) @ '' '' @ arrow @ '' ''
                                             @ str_int (fst ns) @ ''x'' @ str_int (snd ns)))
                                       (''  Output: '' @ str_path out))))"

text \<open>
  \<^verbatim>\<open>batch_downscale\<close>. The list comprehension of lines 112 and 113 is
  \<open>image_files\<close>; the loop of lines 121 to 132 is \<open>process_files\<close>, with the list
  \<^verbatim>\<open>outputs\<close> as its last argument.
\<close>

definition default_extensions :: "string list" where
  "default_extensions = [''.png'', ''.jpg'', ''.jpeg'', ''.gif'', ''.bmp'']"

definition image_files :: "world \<Rightarrow> path \<Rightarrow> string list \<Rightarrow> exn + path list" where
  "image_files w input_path extensions =
     (case iterdir w input_path of
        Inl e \<Rightarrow> Inl e
      | Inr entries \<Rightarrow>
          Inr (filter (\<lambda>f. is_file w f \<and> lower (path_suffix f) \<in> set extensions) entries))"

definition batch_output_file :: "path \<Rightarrow> path \<Rightarrow> path" where
  "batch_output_file out_path img_file =
     joinpath out_path (path_stem img_file @ path_suffix img_file)"

definition error_line :: "path \<Rightarrow> exn \<Rightarrow> string" where
  "error_line img_file e =
     cross_mark @ '' Error processing '' @ path_name img_file @ '': '' @ str_exn e"

fun process_files ::
  "world \<Rightarrow> path \<Rightarrow> int \<Rightarrow> path list \<Rightarrow> string list \<Rightarrow> string list \<times> world" where
  "process_files w out_path target_size [] outputs = (outputs, w)"
| "process_files w out_path target_size (img_file # rest) outputs =
     (case downscale_texture w (str_path img_file)
             (Some (str_path (batch_output_file out_path img_file))) target_size False of
        (Inr result, w1) \<Rightarrow> process_files w1 out_path target_size rest (outputs @ [result])
      | (Inl e, w1) \<Rightarrow>
          process_files (print w1 (error_line img_file e)) out_path target_size rest outputs)"

text \<open>Lines 103 to 107: the value of the local \<^verbatim>\<open>out_path\<close>.\<close>

definition out_path :: "path \<Rightarrow> string option \<Rightarrow> int \<Rightarrow> path" where
  "out_path input_path output_dir target_size =
     (case output_dir of
        None \<Rightarrow>
          joinpath input_path
            (''downscaled_'' @ str_int target_size @ ''x'' @ str_int target_size)
      | Some d \<Rightarrow> Path d)"

definition batch_downscale ::
  "world \<Rightarrow> string \<Rightarrow> string option \<Rightarrow> int \<Rightarrow> string list \<Rightarrow> (exn + string list) \<times> world"
  where
  "batch_downscale w input_dir output_dir target_size extensions =
     (let input_path = Path input_dir
      in if \<not> is_dir w input_path
         then (Inl (Exn NotADirectoryError (''Not a directory: '' @ input_dir)), w)
         else
           let out_dir = out_path input_path output_dir target_size
           in case mkdir w out_dir of
                Inl e \<Rightarrow> (Inl e, w)
              | Inr w1 \<Rightarrow>
                 (case image_files w1 input_path extensions of
                    Inl e \<Rightarrow> (Inl e, w1)
                  | Inr files \<Rightarrow>
                      if files = []
                      then (Inr [], print w1 (''No image files found in '' @ input_dir))
                      else
                        let w2 = print w1
                                   (''Processing '' @ str_int (int (length files)) @ '' images...'')
                        in case process_files w2 out_dir target_size files [] of
                             (outputs, w3) \<Rightarrow>
                               (Inr outputs,
                                print
                                  (print w3
                                     (CHR 0x0A # check_mark @ '' Processed ''
                                        @ str_int (int (length outputs)) @ ''/''
                                        @ str_int (int (length files)) @ '' images''))
                                  (''  Output directory: '' @ str_path out_dir))))"

text \<open>
  \<^verbatim>\<open>main\<close>, after \<^verbatim>\<open>argparse\<close> has parsed the command line: the exit status and
  the environment it leaves.
\<close>

record args =
  arg_input :: string
  arg_output :: "string option"
  arg_size :: int
  arg_batch :: bool
  arg_keep_aspect :: bool

definition main :: "world \<Rightarrow> args \<Rightarrow> int \<times> world" where
  "main w a =
     (if arg_batch a
      then (case batch_downscale w (arg_input a) (arg_output a) (arg_size a) default_extensions of
              (Inl e, w1) \<Rightarrow> (1, print w1 (''Error: '' @ str_exn e))
            | (Inr outputs, w1) \<Rightarrow> (0, w1))
      else (case downscale_texture w (arg_input a) (arg_output a) (arg_size a) (arg_keep_aspect a) of
              (Inl e, w1) \<Rightarrow> (1, print w1 (''Error: '' @ str_exn e))
            | (Inr result, w1) \<Rightarrow> (0, w1)))"

section \<open>Notions of the specification\<close>

text \<open>
  The specification speaks of the files of a batch one by one: each is attempted in
  discovery order, and it succeeds with an output path or fails with an error.
  \<open>attempts\<close> lists these outcomes, each file run in the environment its predecessors
  left; \<open>after_attempt\<close> is that environment.
\<close>

definition attempt :: "world \<Rightarrow> path \<Rightarrow> int \<Rightarrow> path \<Rightarrow> (exn + string) \<times> world" where
  "attempt w out_dir target_size img_file =
     downscale_texture w (str_path img_file)
       (Some (str_path (batch_output_file out_dir img_file))) target_size False"

definition after_attempt :: "world \<Rightarrow> path \<Rightarrow> int \<Rightarrow> path \<Rightarrow> world" where
  "after_attempt w out_dir target_size img_file =
     (case attempt w out_dir target_size img_file of
        (Inr result, w1) \<Rightarrow> w1
      | (Inl e, w1) \<Rightarrow> print w1 (error_line img_file e))"

fun attempts :: "world \<Rightarrow> path \<Rightarrow> int \<Rightarrow> path list \<Rightarrow> (path \<times> (exn + string)) list" where
  "attempts w out_dir target_size [] = []"
| "attempts w out_dir target_size (img_file # rest) =
     (img_file, fst (attempt w out_dir target_size img_file))
       # attempts (after_attempt w out_dir target_size img_file) out_dir target_size rest"

definition succeeded :: "(path \<times> (exn + string)) list \<Rightarrow> string list" where
  "succeeded rs = concat (map (\<lambda>r. case snd r of Inr p \<Rightarrow> [p] | Inl e \<Rightarrow> []) rs)"



definition resize_calls :: "event list \<Rightarrow> (int \<times> int) list" where
  "resize_calls evs = concat (map (\<lambda>ev. case ev of Resize d \<Rightarrow> [d] | _ \<Rightarrow> []) evs)"

definition save_calls :: "event list \<Rightarrow> (path \<times> image) list" where
  "save_calls evs = concat (map (\<lambda>ev. case ev of Save p i \<Rightarrow> [(p, i)] | _ \<Rightarrow> []) evs)"

text \<open>
  What a step of the program adds to the record: the events of the environment after
  the step that the environment before it did not have. \<open>runs\<close> pairs each file
  of a batch with the environment in which its attempt starts.
\<close>

definition new_events :: "world \<Rightarrow> world \<Rightarrow> event list" where
  "new_events w w' = drop (length (events w)) (events w')"

fun runs :: "world \<Rightarrow> path \<Rightarrow> int \<Rightarrow> path list \<Rightarrow> (path \<times> world) list" where
  "runs w out_dir target_size [] = []"
| "runs w out_dir target_size (img_file # rest) =
     (img_file, w) # runs (after_attempt w out_dir target_size img_file) out_dir target_size rest"

text \<open>
  A name that a directory can hold, and a path as \<^verbatim>\<open>pathlib\<close> keeps it: every path
  that \<open>Path\<close>, \<open>joinpath\<close> or \<open>path_parent\<close> returns is of this form.
\<close>

definition valid_name :: "string \<Rightarrow> bool" where
  "valid_name x = (x \<noteq> [] \<and> x \<noteq> ''.'' \<and> CHR ''/'' \<notin> set x)"

definition valid_path :: "path \<Rightarrow> bool" where
  "valid_path p =
     (anchor p \<in> set [[], ''/'', ''//''] \<and> list_all valid_name (names p))"

section \<open>A sample environment\<close>

text \<open>
  A directory \<^verbatim>\<open>textures\<close> with two pictures, a file that is no picture under a
  picture's extension and a text file; beside it a grey picture with an alpha band and
  a directory without pictures. The properties below are tried on it.
\<close>

definition sample_fs :: node where
  "sample_fs =
     Dir [(''textures'',
           Dir [(''a.png'', File (Picture \<lparr>img_mode = ''RGBA'', img_size = (64, 64)\<rparr>)),
                (''b.PNG'', File Garbage),
                (''notes.txt'', File Garbage),
                (''c.jpg'', File (Picture \<lparr>img_mode = ''RGB'', img_size = (49, 49)\<rparr>))]),
          (''gray.png'', File (Picture \<lparr>img_mode = ''LA'', img_size = (32, 32)\<rparr>)),
          (''docs'', Dir [(''readme.md'', File Garbage)])]"

definition sample_world :: world where
  "sample_world = \<lparr>fs = sample_fs, cwd = [], events = []\<rparr>"

text \<open>
  A directory \<^verbatim>\<open>icons\<close> without pictures, in which a regular file has the name
  that the output directory of a batch gets by default.
\<close>

definition blocked_world :: world where
  "blocked_world =
     \<lparr>fs = Dir [(''icons'',
                  Dir [(''readme.md'', File Garbage), (''downscaled_16x16'', File Garbage)])],
      cwd = [], events = []\<rparr>"

text \<open>
  Creating a directory fails only where a file stands at the place of the directory or
  of one of its ancestors.
\<close>

definition file_in_the_way :: "world \<Rightarrow> path \<Rightarrow> bool" where
  "file_in_the_way w p =
     list_ex (\<lambda>ys. holds_file (lookup (fs w) ys)) (prefixes (location w p))"

section \<open>Rounding to a double\<close>

text \<open>
  \<open>floor_log2\<close> is the binary exponent, and rounding a non-negative rational that is
  at most a power of two (in the range of the doubles) gives a double that is at most that
  power of two: rounding never overflows below \<open>2 powi 1023\<close>.
\<close>

lemma floor_log2_lower:
  assumes "0 < x" shows "power_int 2 (floor_log2 x) \<le> x"
proof (cases "1 \<le> x")
  case True
  then have pos: "0 < \<lfloor>x\<rfloor>" by linarith
  from bitlen_bounds[OF pos] have a: "2 ^ nat (bitlen \<lfloor>x\<rfloor> - 1) \<le> \<lfloor>x\<rfloor>" by simp
  have ge: "0 \<le> bitlen \<lfloor>x\<rfloor> - 1" using pos bitlen_eq_zero_iff[of "\<lfloor>x\<rfloor>"] bitlen_nonneg[of "\<lfloor>x\<rfloor>"] by linarith
  have "(2::rat) ^ nat (bitlen \<lfloor>x\<rfloor> - 1) = of_int (2 ^ nat (bitlen \<lfloor>x\<rfloor> - 1))" by simp
  also have "\<dots> \<le> of_int \<lfloor>x\<rfloor>" using a by (simp only: of_int_le_iff)
  also have "\<dots> \<le> x" by simp
  finally show ?thesis using True ge by (simp add: floor_log2_def power_int_nonneg_exp)
next
  case False
  define n where "n = \<lceil>1 / x\<rceil> - 1"
  from False assms have "1 < 1 / x" by (simp add: field_simps)
  then have npos: "0 < n" unfolding n_def by linarith
  from bitlen_bounds[OF npos] have "n < 2 ^ nat (bitlen n)" by simp
  then have "\<lceil>1 / x\<rceil> \<le> 2 ^ nat (bitlen n)" unfolding n_def by linarith
  then have "1 / x \<le> of_int (2 ^ nat (bitlen n))" by (simp only: ceiling_le_iff)
  then have "1 / x \<le> 2 ^ nat (bitlen n)" by simp
  then have "1 / 2 ^ nat (bitlen n) \<le> x" using assms by (simp add: field_simps)
  moreover have "power_int 2 (- bitlen n) = (1::rat) / 2 ^ nat (bitlen n)"
    using bitlen_nonneg[of n] by (simp add: power_int_minus_divide power_int_nonneg_exp)
  ultimately show ?thesis using False by (simp add: floor_log2_def n_def)
qed

lemma floor_log2_upper:
  assumes "0 < x" shows "x < power_int 2 (floor_log2 x + 1)"
proof (cases "1 \<le> x")
  case True
  then have pos: "0 < \<lfloor>x\<rfloor>" by linarith
  from bitlen_bounds[OF pos] have a: "\<lfloor>x\<rfloor> < 2 ^ nat (bitlen \<lfloor>x\<rfloor>)" by simp
  then have "x < of_int (2 ^ nat (bitlen \<lfloor>x\<rfloor>))" by (simp only: floor_less_iff)
  then show ?thesis using True bitlen_nonneg[of "\<lfloor>x\<rfloor>"] by (simp add: floor_log2_def power_int_nonneg_exp)
next
  case False
  define n where "n = \<lceil>1 / x\<rceil> - 1"
  from False assms have "1 < 1 / x" by (simp add: field_simps)
  then have npos: "0 < n" unfolding n_def by linarith
  have ge: "1 \<le> bitlen n" using npos bitlen_eq_zero_iff[of n] bitlen_nonneg[of n] by linarith
  from bitlen_bounds[OF npos] have "2 ^ nat (bitlen n - 1) \<le> n" by simp
  then have "of_int (2 ^ nat (bitlen n - 1)) \<le> (of_int n :: rat)" by (simp only: of_int_le_iff)
  moreover have "of_int n < 1 / x" unfolding n_def by linarith
  ultimately have "of_int (2 ^ nat (bitlen n - 1)) < 1 / x" by (rule le_less_trans)
  then have "2 ^ nat (bitlen n - 1) < 1 / x" by simp
  then have "x < 1 / 2 ^ nat (bitlen n - 1)" using assms by (simp add: field_simps)
  moreover have "power_int 2 (- bitlen n + 1) = (1::rat) / 2 ^ nat (bitlen n - 1)"
  proof -
    have "- bitlen n + 1 = - (bitlen n - 1)" by simp
    then show ?thesis using ge by (simp only: power_int_minus_divide) (simp add: power_int_nonneg_exp)
  qed
  ultimately show ?thesis using False by (simp add: floor_log2_def n_def)
qed

lemma round_half_even_le:
  assumes "q \<le> of_int N" shows "round_half_even q \<le> N"
proof (cases "q = of_int N")
  case True
  then show ?thesis by (simp add: round_half_even_def)
next
  case False
  with assms have "q < of_int N" by simp
  then have "\<lfloor>q\<rfloor> < N" by (simp add: floor_less_iff)
  then show ?thesis by (simp add: round_half_even_def Let_def)
qed

lemma round_half_even_nonneg:
  assumes "0 \<le> q" shows "0 \<le> round_half_even q"
proof -
  from assms have "0 \<le> \<lfloor>q\<rfloor>" by simp
  then show ?thesis by (simp add: round_half_even_def Let_def)
qed

lemma double_round_bound:
  assumes "0 \<le> x" and "x \<le> power_int 2 k" and "- 1074 \<le> k" and "k \<le> 1023"
  shows "\<exists>y. double_round x = Some y \<and> 0 \<le> y \<and> y \<le> power_int 2 k"
proof (cases "x = 0")
  case True
  then show ?thesis by (simp add: double_round_def)
next
  case False
  with assms have pos: "0 < x" by simp
  define e where "e = max (floor_log2 x) (- 1022)"
  define ulp :: rat where "ulp = power_int 2 (e - 52)"
  define y where "y = of_int (round_half_even (x / ulp)) * ulp"
  have ulp_pos: "0 < ulp" unfolding ulp_def by (simp add: zero_less_power_int)
  have le2: "power_int 2 (floor_log2 x) \<le> (power_int 2 k :: rat)"
    using floor_log2_lower[OF pos] assms(2) by linarith
  have "floor_log2 x \<le> k"
  proof (rule ccontr)
    assume "\<not> floor_log2 x \<le> k"
    then have "k < floor_log2 x" by simp
    then have "power_int 2 k < (power_int 2 (floor_log2 x) :: rat)"
      by (intro power_int_strict_increasing) simp_all
    with le2 show False by simp
  qed
  then have ek: "e - 52 \<le> k" using assms(3) unfolding e_def by simp
  have grid: "(power_int 2 k :: rat) = of_int (2 ^ nat (k - (e - 52))) * ulp"
  proof -
    have "(power_int 2 k :: rat) = power_int 2 ((k - (e - 52)) + (e - 52))" by simp
    also have "\<dots> = power_int 2 (k - (e - 52)) * power_int 2 (e - 52)"
      by (rule power_int_add) simp
    finally show ?thesis using ek by (simp add: ulp_def power_int_nonneg_exp)
  qed
  have "x / ulp \<le> of_int (2 ^ nat (k - (e - 52)))"
    using assms(2) ulp_pos unfolding grid by (simp add: field_simps)
  then have r_le: "round_half_even (x / ulp) \<le> 2 ^ nat (k - (e - 52))"
    by (rule round_half_even_le)
  have r_ge: "0 \<le> round_half_even (x / ulp)"
    using pos ulp_pos by (intro round_half_even_nonneg) simp
  have y_ge: "0 \<le> y" unfolding y_def using r_ge ulp_pos by simp
  have "y \<le> of_int (2 ^ nat (k - (e - 52))) * ulp"
    unfolding y_def using r_le ulp_pos by (simp only: mult_le_cancel_right_pos of_int_le_iff)
  then have y_le: "y \<le> power_int 2 k" by (simp only: grid)
  have "(power_int 2 k :: rat) \<le> power_int 2 1023"
    using assms(4) by (intro power_int_increasing) simp_all
  also have "\<dots> < power_int 2 1024" by (intro power_int_strict_increasing) simp_all
  finally have "\<not> power_int 2 1024 \<le> \<bar>y\<bar>" using y_le y_ge by simp
  moreover have "\<bar>x\<bar> = x" using pos by simp
  ultimately have "double_round x = Some y"
    using False unfolding double_round_def by (simp only: Let_def e_def[symmetric] ulp_def[symmetric] y_def[symmetric] if_False)
  then show ?thesis using y_ge y_le by simp
qed


lemma scaled_finite:
  assumes n: "0 \<le> n" "of_int n \<le> (power_int 2 (a + 1) :: rat)"
    and a: "0 \<le> a" "a \<le> 1022"
    and r: "0 \<le> ratio" "ratio \<le> power_int 2 (1022 - a)"
  shows "\<exists>p. int_mul_float n ratio = Inr (Finite p) \<and> scaled n ratio = Inr (trunc p)"
proof -
  from n a have "\<exists>f. double_round (of_int n) = Some f \<and> 0 \<le> f \<and> f \<le> power_int 2 (a + 1)"
    by (intro double_round_bound) simp_all
  then obtain f where f: "double_round (of_int n) = Some f" "0 \<le> f" "f \<le> power_int 2 (a + 1)"
    by blast
  have "f * ratio \<le> power_int 2 (a + 1) * power_int 2 (1022 - a)"
    using f(2,3) r by (intro mult_mono) (simp_all add: zero_le_power_int)
  also have "\<dots> = (power_int 2 ((a + 1) + (1022 - a)) :: rat)"
    by (rule power_int_add[symmetric]) simp
  also have "\<dots> = power_int 2 1023" by simp
  finally have "f * ratio \<le> power_int 2 1023" .
  moreover have "0 \<le> f * ratio" using f(2) r(1) by simp
  ultimately have "\<exists>p. double_round (f * ratio) = Some p \<and> 0 \<le> p \<and> p \<le> power_int 2 1023"
    by (intro double_round_bound) simp_all
  then obtain p where p: "double_round (f * ratio) = Some p" by blast
  have "int_mul_float n ratio = Inr (Finite p)"
    using f(1) p by (simp add: int_mul_float_def float_of_int_def float_mul_def)
  then show ?thesis by (simp add: scaled_def int_of_float_def)
qed

lemma new_size_aspect_general:
  assumes lo: "1 \<le> w0" "1 \<le> h0" "1 \<le> T"
    and hi: "w0 \<le> 2 ^ 1022" "h0 \<le> 2 ^ 1022" "T \<le> 2 ^ 1022"
  shows "\<exists>ratio pw ph.
           int_truediv T (max w0 h0) = Inr ratio \<and>
           int_mul_float w0 ratio = Inr (Finite pw) \<and>
           int_mul_float h0 ratio = Inr (Finite ph) \<and>
           new_size (w0, h0) T True = Inr (max 1 (trunc pw), max 1 (trunc ph)) \<and>
           1 \<le> max 1 (trunc pw) \<and> 1 \<le> max 1 (trunc ph)"
proof -
  define m where "m = max w0 h0"
  define a where "a = bitlen m - 1"
  have m1: "1 \<le> m" and mhi: "m \<le> 2 ^ 1022" and wm: "w0 \<le> m" and hm: "h0 \<le> m"
    using lo hi by (simp_all add: m_def)
  then have mpos: "0 < m" by simp
  from bitlen_bounds[OF mpos] have lower: "2 ^ nat a \<le> m" and upper: "m < 2 ^ nat (bitlen m)"
    by (simp_all add: a_def)
  have a0: "0 \<le> a"
    using mpos bitlen_eq_zero_iff[of m] bitlen_nonneg[of m] unfolding a_def by linarith
  have "(2::int) ^ nat a \<le> 2 ^ 1022" using lower mhi by (rule order_trans)
  then have "nat a \<le> 1022" by (intro power_le_imp_le_exp[where a = "2::int"]) simp
  then have a1: "a \<le> 1022" by simp
  have up: "of_int m \<le> (power_int 2 (a + 1) :: rat)"
  proof -
    have "bitlen m = a + 1" by (simp add: a_def)
    with upper have "m \<le> 2 ^ nat (a + 1)" by simp
    then have "(of_int m :: rat) \<le> of_int (2 ^ nat (a + 1))" by (simp only: of_int_le_iff)
    then show ?thesis using a0 by (simp add: power_int_nonneg_exp)
  qed
  have low: "(power_int 2 a :: rat) \<le> of_int m"
  proof -
    from lower have "(of_int (2 ^ nat a) :: rat) \<le> of_int m" by (simp only: of_int_le_iff)
    then show ?thesis using a0 by (simp add: power_int_nonneg_exp)
  qed
  have q0: "(0::rat) \<le> of_int T / of_int m" using lo(3) mpos by simp
  have "(of_int T :: rat) \<le> of_int (2 ^ 1022)" using hi(3) by (simp only: of_int_le_iff)
  then have Thi: "(of_int T :: rat) \<le> power_int 2 1022" by simp
  have "(of_int T :: rat) / of_int m \<le> power_int 2 1022 / power_int 2 a"
    using Thi low lo(3) by (intro frac_le) (simp_all add: zero_less_power_int)
  also have "\<dots> = (power_int 2 (1022 - a) :: rat)"
    by (rule power_int_diff[symmetric]) simp
  finally have q1: "(of_int T :: rat) / of_int m \<le> power_int 2 (1022 - a)" .
  have "\<exists>y. double_round (of_int T / of_int m) = Some y \<and> 0 \<le> y \<and> y \<le> power_int 2 (1022 - a)"
    using q0 q1 a0 a1 by (intro double_round_bound) simp_all
  then obtain ratio where ratio: "double_round (of_int T / of_int m) = Some ratio"
    "0 \<le> ratio" "ratio \<le> power_int 2 (1022 - a)" by blast
  have div: "int_truediv T m = Inr ratio"
    using ratio(1) mpos by (simp add: int_truediv_def)
  have "(of_int w0 :: rat) \<le> of_int m" using wm by (simp only: of_int_le_iff)
  then have w_up: "of_int w0 \<le> (power_int 2 (a + 1) :: rat)" using up by linarith
  have "(of_int h0 :: rat) \<le> of_int m" using hm by (simp only: of_int_le_iff)
  then have h_up: "of_int h0 \<le> (power_int 2 (a + 1) :: rat)" using up by linarith
  from scaled_finite[OF _ w_up a0 a1 ratio(2,3)] lo(1)
  obtain pw where pw: "int_mul_float w0 ratio = Inr (Finite pw)" "scaled w0 ratio = Inr (trunc pw)"
    by auto
  from scaled_finite[OF _ h_up a0 a1 ratio(2,3)] lo(2)
  obtain ph where ph: "int_mul_float h0 ratio = Inr (Finite ph)" "scaled h0 ratio = Inr (trunc ph)"
    by auto
  have "new_size (w0, h0) T True = Inr (max 1 (trunc pw), max 1 (trunc ph))"
    using div pw(2) ph(2) by (simp add: new_size_def m_def)
  then show ?thesis using div pw(1) ph(1) unfolding m_def by auto
qed

lemma round_half_even_ge:
  assumes "of_int N \<le> q" shows "N \<le> round_half_even q"
proof -
  from assms have "N \<le> \<lfloor>q\<rfloor>" by (simp add: le_floor_iff)
  then show ?thesis by (simp add: round_half_even_def Let_def)
qed

lemma double_round_overflow:
  assumes "power_int 2 1024 \<le> x" shows "double_round x = None"
proof -
  have p: "(0::rat) < power_int 2 1024" by (simp add: zero_less_power_int)
  with assms have pos: "0 < x" by linarith
  define e where "e = floor_log2 x"
  define ulp :: rat where "ulp = power_int 2 (e - 52)"
  define y where "y = of_int (round_half_even (x / ulp)) * ulp"
  have ulp_pos: "0 < ulp" unfolding ulp_def by (simp add: zero_less_power_int)
  have "(power_int 2 1024 :: rat) < power_int 2 (e + 1)"
    using assms floor_log2_upper[OF pos] unfolding e_def by linarith
  then have "\<not> e + 1 \<le> 1024"
    using power_int_increasing[of "e + 1" 1024 "2::rat"] by auto
  then have e_ge: "1024 \<le> e" by simp
  have split: "(power_int 2 e :: rat) = of_int (2 ^ 52) * ulp"
  proof -
    have "(power_int 2 e :: rat) = power_int 2 (52 + (e - 52))" by simp
    also have "\<dots> = power_int 2 52 * power_int 2 (e - 52)"
      by (rule power_int_add) simp
    finally show ?thesis by (simp add: ulp_def)
  qed
  have "power_int 2 e \<le> x" using floor_log2_lower[OF pos] by (simp add: e_def)
  then have "of_int (2 ^ 52) \<le> x / ulp"
    using ulp_pos unfolding split by (simp add: field_simps)
  then have "2 ^ 52 \<le> round_half_even (x / ulp)" by (rule round_half_even_ge)
  then have "(of_int (2 ^ 52) :: rat) \<le> of_int (round_half_even (x / ulp))"
    by (simp only: of_int_le_iff)
  then have "of_int (2 ^ 52) * ulp \<le> y"
    unfolding y_def using ulp_pos by (simp only: mult_le_cancel_right_pos)
  then have "power_int 2 e \<le> y" by (simp only: split)
  moreover have "(power_int 2 1024 :: rat) \<le> power_int 2 e"
    using e_ge by (intro power_int_increasing) simp_all
  ultimately have big: "power_int 2 1024 \<le> \<bar>y\<bar>" by linarith
  have "max e (- 1022) = e" using e_ge by simp
  moreover have "\<bar>x\<bar> = x" "x \<noteq> 0" using pos by simp_all
  ultimately show ?thesis
    using big unfolding double_round_def
    by (simp only: Let_def e_def[symmetric] ulp_def[symmetric] y_def[symmetric] if_True if_False)
qed

lemma floor_log2_unique:
  assumes "power_int 2 e \<le> x" and "x < power_int 2 (e + 1)"
  shows "floor_log2 x = e"
proof -
  have "(0::rat) < power_int 2 e" by (simp add: zero_less_power_int)
  with assms(1) have pos: "0 < x" by linarith
  note lo = floor_log2_lower[OF pos] and up = floor_log2_upper[OF pos]
  have "\<not> floor_log2 x < e"
  proof
    assume "floor_log2 x < e"
    then have "(power_int 2 (floor_log2 x + 1) :: rat) \<le> power_int 2 e"
      by (intro power_int_increasing) simp_all
    with up assms(1) show False by linarith
  qed
  moreover have "\<not> e < floor_log2 x"
  proof
    assume "e < floor_log2 x"
    then have "(power_int 2 (e + 1) :: rat) \<le> power_int 2 (floor_log2 x)"
      by (intro power_int_increasing) simp_all
    with lo assms(2) show False by linarith
  qed
  ultimately show ?thesis by linarith
qed

lemma double_round_normal:
  assumes "power_int 2 e \<le> x" and "x < power_int 2 (e + 1)"
    and "- 1022 \<le> e" and "e \<le> 1022"
  shows "double_round x =
           Some (of_int (round_half_even (x / power_int 2 (e - 52))) * power_int 2 (e - 52))"
proof -
  have "(0::rat) < power_int 2 e" by (simp add: zero_less_power_int)
  with assms(1) have pos: "0 < x" by linarith
  have fl: "floor_log2 x = e" using assms(1,2) by (rule floor_log2_unique)
  have "\<exists>y. double_round x = Some y \<and> 0 \<le> y \<and> y \<le> power_int 2 (e + 1)"
    using pos assms by (intro double_round_bound) simp_all
  then obtain y where y: "double_round x = Some y" by blast
  have "\<bar>x\<bar> = x" "x \<noteq> 0" using pos by simp_all
  moreover have "max e (- 1022) = e" using assms(3) by simp
  ultimately show ?thesis
    using y unfolding double_round_def by (simp add: Let_def fl split: if_splits)
qed

lemma round_half_even_frac:
  assumes "0 < d"
  shows "round_half_even (of_int n / of_int d) =
           (if 2 * (n mod d) < d then n div d
            else if d < 2 * (n mod d) then n div d + 1
            else if even (n div d) then n div d else n div d + 1)"
proof -
  have fl: "\<lfloor>(of_int n :: rat) / of_int d\<rfloor> = n div d" by (rule floor_divide_of_int_eq)
  have "(of_int n :: rat) = of_int (d * (n div d) + n mod d)" by simp
  also have "\<dots> = of_int d * of_int (n div d) + of_int (n mod d)" by (simp only: of_int_add of_int_mult)
  finally have r: "(of_int n :: rat) / of_int d - of_int (n div d) = of_int (n mod d) / of_int d"
    using assms by (simp add: field_simps)
  have lt: "(of_int (n mod d) / of_int d < (1::rat) / 2) = (2 * (n mod d) < d)"
  proof -
    have "(of_int (n mod d) / of_int d < (1::rat) / 2) = ((of_int (2 * (n mod d)) :: rat) < of_int d)"
      using assms by (simp add: field_simps)
    then show ?thesis by (simp only: of_int_less_iff)
  qed
  have gt: "((1::rat) / 2 < of_int (n mod d) / of_int d) = (d < 2 * (n mod d))"
  proof -
    have "((1::rat) / 2 < of_int (n mod d) / of_int d) = ((of_int d :: rat) < of_int (2 * (n mod d)))"
      using assms by (simp add: field_simps)
    then show ?thesis by (simp only: of_int_less_iff)
  qed
  show ?thesis by (simp only: round_half_even_def Let_def fl r lt gt)
qed

lemma double_round_eval:
  assumes "power_int 2 e \<le> x" and "x < power_int 2 (e + 1)"
    and "- 1022 \<le> e" and "e \<le> 1022"
    and "x / power_int 2 (e - 52) = of_int n / of_int d" and "0 < d"
    and "(if 2 * (n mod d) < d then n div d
          else if d < 2 * (n mod d) then n div d + 1
          else if even (n div d) then n div d else n div d + 1) = k"
  shows "double_round x = Some (of_int k * power_int 2 (e - 52))"
  using double_round_normal[OF assms(1-4)] round_half_even_frac[OF assms(6), of n]
  by (simp only: assms(5,7))

lemma trunc_frac:
  assumes "0 \<le> n" and "0 < d"
  shows "trunc (of_int n / of_int d) = n div d"
proof -
  have "(0::rat) \<le> of_int n / of_int d" using assms by simp
  then show ?thesis by (simp only: trunc_def if_True floor_divide_of_int_eq)
qed

text \<open>
  The program's own numbers at a picture of 49 by 49 pixels and the default target size
  16: the quotient \<open>16 / 49\<close> rounds below the true value, and the product with 49
  rounds to the double just below 16.
\<close>

lemma ratio_16_49: "int_truediv 16 49 = Inr (5882252574524729 / 18014398509481984)"
proof -
  have "double_round (16 / 49) = Some (of_int 5882252574524729 * power_int 2 (- 2 - 52))"
    by (rule double_round_eval[where n = 288230376151711744 and d = 49])
       (simp_all add: power_int_minus_divide)
  then show ?thesis by (simp add: int_truediv_def power_int_minus_divide)
qed

lemma float_49: "double_round 49 = Some 49"
proof -
  have "double_round 49 = Some (of_int 6896136929411072 * power_int 2 (5 - 52))"
    by (rule double_round_eval[where n = 6896136929411072 and d = 1])
       (simp_all add: power_int_minus_divide)
  then show ?thesis by (simp add: power_int_minus_divide)
qed

lemma product_49:
  "double_round (49 * (5882252574524729 / 18014398509481984)) =
     Some (9007199254740991 / 562949953421312)"
proof -
  have "double_round (49 * (5882252574524729 / 18014398509481984)) =
          Some (of_int 9007199254740991 * power_int 2 (3 - 52))"
    by (rule double_round_eval[where n = 288230376151711721 and d = 32])
       (simp_all add: power_int_minus_divide)
  then show ?thesis by (simp add: power_int_minus_divide)
qed

lemma scaled_49: "scaled 49 (5882252574524729 / 18014398509481984) = Inr 15"
  using float_49 product_49 trunc_frac[of 9007199254740991 562949953421312]
  by (simp add: scaled_def int_mul_float_def float_of_int_def float_mul_def int_of_float_def)

section \<open>Target dimensions: the claims\<close>

text \<open>
  Claim C1, as amended. For every original size \<open>(w0, h0)\<close> and target size \<open>T\<close>,
  all at least 1 and none above \<open>2 ^ 1022\<close>, and \<open>maintain_aspect\<close> true, no step
  of the float computation overflows, the output dimensions are
  \<open>(max 1 (trunc (w0 * ratio)), max 1 (trunc (h0 * ratio)))\<close> with
  \<open>ratio = T / max w0 h0\<close>, the division and the products being those of Python's
  floats and \<open>trunc\<close> truncation toward zero, and both dimensions are at least 1.
\<close>

theorem new_size_maintain_aspect:
  assumes "1 \<le> w0" and "1 \<le> h0" and "1 \<le> T"
    and "w0 \<le> 2 ^ 1022" and "h0 \<le> 2 ^ 1022" and "T \<le> 2 ^ 1022"
  shows "\<exists>ratio pw ph.
           int_truediv T (max w0 h0) = Inr ratio \<and>
           int_mul_float w0 ratio = Inr (Finite pw) \<and>
           int_mul_float h0 ratio = Inr (Finite ph) \<and>
           new_size (w0, h0) T True = Inr (max 1 (trunc pw), max 1 (trunc ph)) \<and>
           1 \<le> max 1 (trunc pw) \<and> 1 \<le> max 1 (trunc ph)"
  using assms by (rule new_size_aspect_general)

theorem new_size_maintain_aspect_witness:
  "(1::int) \<le> 1 \<and> (1::int) \<le> 1000 \<and> (1::int) \<le> 16 \<and> (1000::int) \<le> 2 ^ 1022 \<and>
   (\<exists>w h. new_size (1, 1000) 16 True = Inr (w, h) \<and> 1 \<le> w \<and> 1 \<le> h)"
proof -
  have "\<exists>ratio pw ph.
           int_truediv 16 (max 1 1000) = Inr ratio \<and>
           int_mul_float 1 ratio = Inr (Finite pw) \<and>
           int_mul_float 1000 ratio = Inr (Finite ph) \<and>
           new_size (1, 1000) 16 True = Inr (max 1 (trunc pw), max 1 (trunc ph)) \<and>
           1 \<le> max 1 (trunc pw) \<and> 1 \<le> max 1 (trunc ph)"
    by (rule new_size_maintain_aspect) simp_all
  then show ?thesis by auto
qed

text \<open>
  Without the bound the claim fails: at target size \<open>2 ^ 1024\<close> the quotient is too
  large for a float, and Python raises \<^verbatim>\<open>OverflowError\<close> instead of computing
  dimensions.
\<close>

theorem new_size_overflow:
  "new_size (1, 1) (2 ^ 1024) True =
     Inl (Exn OverflowError ''integer division result too large for a float'')"
proof -
  have "(of_int (2 ^ 1024) :: rat) / of_int (max 1 1) = power_int 2 1024" by simp
  then have "double_round (of_int (2 ^ 1024) / of_int (max 1 1)) = None"
    by (intro double_round_overflow) (simp only: order_refl)
  then show ?thesis by (simp add: new_size_def int_truediv_def)
qed

text \<open>
  Claim C6 says that with \<open>maintain_aspect\<close> true the larger original dimension
  resolves to the target size. The program gives 15 by 15 for a picture of 49 by 49
  pixels and target size 16: the float product \<open>49 * (16 / 49)\<close> is just below 16 and
  \<^verbatim>\<open>int\<close> truncates it.
\<close>

theorem new_size_49_by_49:
  "new_size (49, 49) 16 True = Inr (15, 15)"
  by (simp add: new_size_def ratio_16_49 scaled_49)

section \<open>Paths\<close>

text \<open>
  Splitting at the separator and joining with it are inverse on valid names, so a valid
  path is read back from its string unchanged; joining a valid name to a path appends
  it; a name is its stem followed by its suffix.
\<close>

lemma split_on_not_Nil: "split_on c s \<noteq> []"
  by (induction s) (auto split: list.splits)

lemma split_on_no_sep: "c \<notin> set s \<Longrightarrow> split_on c s = [s]"
  by (induction s) auto

lemma split_on_elems: "x \<in> set (split_on c s) \<Longrightarrow> c \<notin> set x"
proof (induction s arbitrary: x)
  case Nil
  then show ?case by simp
next
  case (Cons a s)
  obtain y ys where ys: "split_on c s = y # ys"
    using split_on_not_Nil[of c s] by (cases "split_on c s") auto
  with Cons show ?case by (auto split: if_splits)
qed

lemma split_on_append:
  "c \<notin> set x \<Longrightarrow> split_on c (x @ c # rest) = x # split_on c rest"
  by (induction x) auto

lemma split_on_join_slash:
  "xs \<noteq> [] \<Longrightarrow> \<forall>x \<in> set xs. CHR ''/'' \<notin> set x \<Longrightarrow>
   split_on CHR ''/'' (join_slash xs) = xs"
proof (induction xs rule: join_slash.induct)
  case 1
  then show ?case by simp
next
  case (2 x)
  then show ?case by (simp add: split_on_no_sep)
next
  case (3 x y ys)
  then show ?case by (simp add: split_on_append)
qed

lemma names_Path_valid: "x \<in> set (names (Path s)) \<Longrightarrow> valid_name x"
  by (auto simp: Path_def Let_def valid_name_def dest: split_on_elems)

lemma anchor_Path: "anchor (Path s) = [] \<or> anchor (Path s) = ''/'' \<or> anchor (Path s) = ''//''"
  by (simp add: Path_def Let_def)

lemma valid_path_Path: "valid_path (Path s)"
  using anchor_Path[of s] by (auto simp: valid_path_def list_all_iff names_Path_valid)

lemma Path_valid_name:
  assumes "valid_name s"
  shows "Path s = \<lparr>anchor = [], names = [s]\<rparr>"
proof -
  from assms obtain a t where s: "s = a # t" and a: "a \<noteq> CHR ''/''"
    by (cases s) (auto simp: valid_name_def)
  have "takeWhile (\<lambda>c. c = CHR ''/'') s = []" using s a by simp
  moreover have "split_on CHR ''/'' s = [s]"
    using assms by (intro split_on_no_sep) (simp add: valid_name_def)
  ultimately show ?thesis using assms by (simp add: Path_def valid_name_def)
qed

lemma joinpath_valid_name: "valid_name s \<Longrightarrow> joinpath p s = child p s"
  by (simp add: joinpath_def Path_valid_name child_def)

lemma path_parent_child: "path_parent (child p s) = p"
  by (simp add: path_parent_def child_def)

lemma path_name_child: "path_name (child p s) = s"
  by (simp add: path_name_def child_def)

lemma valid_path_child: "valid_path p \<Longrightarrow> valid_name s \<Longrightarrow> valid_path (child p s)"
  by (simp add: valid_path_def child_def)

lemma valid_path_joinpath: "valid_path p \<Longrightarrow> valid_path (joinpath p s)"
  using valid_path_Path[of s]
  by (auto simp: joinpath_def Let_def valid_path_def)

lemma stem_suffix: "name_stem n @ name_suffix n = n"
  by (simp add: name_stem_def name_suffix_def Let_def)

lemma path_stem_suffix: "path_stem p @ path_suffix p = path_name p"
  by (simp add: path_stem_def path_suffix_def stem_suffix)

lemma set_name_stem: "set (name_stem n) \<subseteq> set n"
  by (auto simp: name_stem_def Let_def dest: in_set_takeD)

lemma set_name_suffix: "set (name_suffix n) \<subseteq> set n"
  by (auto simp: name_suffix_def Let_def dest: in_set_dropD)

lemma path_name_no_slash: "valid_path p \<Longrightarrow> CHR ''/'' \<notin> set (path_name p)"
  by (auto simp: path_name_def valid_path_def list_all_iff valid_name_def)

lemma digit_char_no_slash: "d < 10 \<Longrightarrow> digit_char d \<noteq> CHR ''/''"
proof -
  assume "d < 10"
  then have "d \<in> {0, 1, 2, 3, 4, 5, 6, 7, 8, 9}" by auto
  then show ?thesis by (auto simp: digit_char_def)
qed

lemma str_nat_no_slash: "CHR ''/'' \<notin> set (str_nat n)"
proof (induction n rule: str_nat.induct)
  case (1 n)
  show ?case
  proof (cases "n < 10")
    case True
    then show ?thesis using digit_char_no_slash[of n] by (subst str_nat.simps) auto
  next
    case False
    then show ?thesis using 1 digit_char_no_slash[of "n mod 10"]
      by (subst str_nat.simps) auto
  qed
qed

lemma str_int_no_slash: "CHR ''/'' \<notin> set (str_int i)"
  by (simp add: str_int_def str_nat_no_slash)

lemma Path_str_path:
  assumes "valid_path p"
  shows "Path (str_path p) = p"
proof (cases "names p")
  case Nil
  with assms show ?thesis
    by (auto simp: valid_path_def str_path_def Path_def Let_def intro!: path.equality)
next
  case (Cons x xs)
  from assms Cons have vx: "valid_name x" and all: "\<forall>y \<in> set (names p). CHR ''/'' \<notin> set y"
    and ok: "\<forall>y \<in> set (names p). y \<noteq> [] \<and> y \<noteq> ''.''"
    by (auto simp: valid_path_def list_all_iff valid_name_def)
  from vx obtain a t where x: "x = a # t" and a: "a \<noteq> CHR ''/''"
    by (cases x) (auto simp: valid_name_def)
  have sj: "split_on CHR ''/'' (join_slash (names p)) = names p"
    using Cons all by (intro split_on_join_slash) auto
  have hdj: "\<exists>r. join_slash (names p) = a # r"
    using Cons x by (cases xs) auto
  then obtain r where r: "join_slash (names p) = a # r" by blast
  have fl: "filter (\<lambda>y. y \<noteq> [] \<and> y \<noteq> ''.'') (names p) = names p"
    using ok by (simp add: filter_id_conv)
  from assms have "anchor p = [] \<or> anchor p = ''/'' \<or> anchor p = ''//''"
    by (simp add: valid_path_def)
  then show ?thesis
  proof (elim disjE)
    assume "anchor p = []"
    then show ?thesis using Cons sj fl r a assms
      by (auto simp: str_path_def Path_def Let_def valid_path_def intro!: path.equality)
  next
    assume "anchor p = ''/''"
    then show ?thesis using Cons sj fl r a assms
      by (auto simp: str_path_def Path_def Let_def valid_path_def intro!: path.equality)
  next
    assume "anchor p = ''//''"
    then show ?thesis using Cons sj fl r a assms
      by (auto simp: str_path_def Path_def Let_def valid_path_def intro!: path.equality)
  qed
qed

lemma valid_name_default:
  assumes "valid_path p"
  shows "valid_name (path_stem p @ ''_'' @ str_int T @ ''x'' @ str_int T @ path_suffix p)"
proof -
  have a: "CHR ''/'' \<notin> set (path_stem p)"
    using path_name_no_slash[OF assms] set_name_stem[of "path_name p"]
    by (auto simp: path_stem_def)
  have b: "CHR ''/'' \<notin> set (path_suffix p)"
    using path_name_no_slash[OF assms] set_name_suffix[of "path_name p"]
    by (auto simp: path_suffix_def)
  have c: "path_stem p @ ''_'' @ str_int T @ ''x'' @ str_int T @ path_suffix p \<noteq> ''.''"
    by (cases "path_stem p") auto
  show ?thesis using a b c by (simp add: valid_name_def str_int_no_slash)
qed

lemma output_file_default:
  "output_file (Path s) None T =
     child (path_parent (Path s))
       (path_stem (Path s) @ ''_'' @ str_int T @ ''x'' @ str_int T @ path_suffix (Path s))"
proof -
  have "valid_name
          (path_stem (Path s) @ ''_'' @ str_int T @ ''x'' @ str_int T @ path_suffix (Path s))"
    by (rule valid_name_default) (rule valid_path_Path)
  then show ?thesis
    unfolding output_file_def by (simp only: option.case joinpath_valid_name)
qed

section \<open>One file: the shape of a run\<close>

lemma events_emit: "events (emit w ev) = events w @ [ev]"
  by (simp add: emit_def)

lemma events_print: "events (print w s) = events w @ [Print s]"
  by (simp add: print_def emit_def)

lemma snd_image_open: "snd (image_open w f) = emit w (ImageOpen f)"
  by (simp add: image_open_def Let_def split: option.splits node.splits content.splits)

lemma snd_image_resize: "snd (image_resize w img sz) = emit w (Resize sz)"
  by (simp add: image_resize_def Let_def)

lemma image_resize_Inr:
  "fst (image_resize w img sz) = Inr d \<Longrightarrow> d = img\<lparr>img_size := sz\<rparr>"
  by (auto simp: image_resize_def Let_def split: if_splits)

lemma events_image_save: "events (snd (image_save w img p)) = events w @ [Save p img]"
  by (simp add: image_save_def Let_def emit_def split: option.splits sum.splits)

lemma events_save_downscaled:
  "events (snd (save_downscaled w d out)) =
     events w @
       (if lower (path_suffix out) \<notin> set [''.png'', ''.gif''] \<and> img_mode d = ''RGBA''
        then [Convert ''RGB'', Save out (d\<lparr>img_mode := ''RGB''\<rparr>)]
        else [Save out d])"
  by (simp add: save_downscaled_def image_convert_def events_image_save events_emit)

lemma downscale_texture_unfold:
  "downscale_texture w inp out T asp =
     (if \<not> path_exists w (Path inp)
      then (Inl (Exn FileNotFoundError (''Input file not found: '' @ inp)), w)
      else case fst (image_open w inp) of
             Inl e \<Rightarrow> (Inl e, emit w (ImageOpen inp))
           | Inr img \<Rightarrow>
              (case new_size (img_size img) T asp of
                 Inl e \<Rightarrow> (Inl e, emit w (ImageOpen inp))
               | Inr ns \<Rightarrow>
                  if fst ns < 1 \<or> snd ns < 1
                  then (Inl (Exn ValueError ''height and width must be > 0''),
                        emit (emit w (ImageOpen inp)) (Resize ns))
                  else (case fst (save_downscaled (emit (emit w (ImageOpen inp)) (Resize ns))
                                    (img\<lparr>img_size := ns\<rparr>) (output_file (Path inp) out T)) of
                          Inl e \<Rightarrow>
                            (Inl e,
                             snd (save_downscaled (emit (emit w (ImageOpen inp)) (Resize ns))
                                    (img\<lparr>img_size := ns\<rparr>) (output_file (Path inp) out T)))
                        | Inr u \<Rightarrow>
                            (Inr (str_path (output_file (Path inp) out T)),
                             print
                               (print
                                  (snd (save_downscaled (emit (emit w (ImageOpen inp)) (Resize ns))
                                          (img\<lparr>img_size := ns\<rparr>) (output_file (Path inp) out T)))
                                  (check_mark @ '' Downscaled: ''
                                     @ str_int (fst (img_size img)) @ ''x''
                                     @ str_int (snd (img_size img)) @ '' '' @ arrow @ '' ''
                                     @ str_int (fst ns) @ ''x'' @ str_int (snd ns)))
                               (''  Output: '' @ str_path (output_file (Path inp) out T))))))"
proof -
  obtain r1 w1 where o: "image_open w inp = (r1, w1)" by (cases "image_open w inp")
  have w1: "w1 = emit w (ImageOpen inp)" using snd_image_open[of w inp] o by simp
  show ?thesis
    using o w1
    by (simp add: downscale_texture_def Let_def image_resize_def
             split: sum.splits prod.splits)
qed

lemma events_downscale_texture:
  "events (snd (downscale_texture w inp out T asp)) =
     events w @
       (if \<not> path_exists w (Path inp) then []
        else ImageOpen inp #
          (case fst (image_open w inp) of
             Inl e \<Rightarrow> []
           | Inr img \<Rightarrow>
              (case new_size (img_size img) T asp of
                 Inl e \<Rightarrow> []
               | Inr ns \<Rightarrow>
                  Resize ns #
                    (if fst ns < 1 \<or> snd ns < 1 then []
                     else
                       (if lower (path_suffix (output_file (Path inp) out T))
                             \<notin> set [''.png'', ''.gif'']
                           \<and> img_mode img = ''RGBA''
                        then [Convert ''RGB'',
                              Save (output_file (Path inp) out T)
                                \<lparr>img_mode = ''RGB'', img_size = ns\<rparr>]
                        else [Save (output_file (Path inp) out T)
                                \<lparr>img_mode = img_mode img, img_size = ns\<rparr>])
                       @ (case fst (save_downscaled (emit (emit w (ImageOpen inp)) (Resize ns))
                                      (img\<lparr>img_size := ns\<rparr>) (output_file (Path inp) out T)) of
                            Inl e \<Rightarrow> []
                          | Inr u \<Rightarrow>
                              [Print (check_mark @ '' Downscaled: ''
                                        @ str_int (fst (img_size img)) @ ''x''
                                        @ str_int (snd (img_size img)) @ '' '' @ arrow @ '' ''
                                        @ str_int (fst ns) @ ''x'' @ str_int (snd ns)),
                               Print (''  Output: '' @ str_path (output_file (Path inp) out T))])))))"
  by (cases "fst (image_open w inp)")
     (auto simp: downscale_texture_unfold events_emit events_print events_save_downscaled
           split: sum.splits)

lemma resize_calls_simps:
  "resize_calls [] = []"
  "resize_calls (Resize d # evs) = d # resize_calls evs"
  "resize_calls (ImageOpen f # evs) = resize_calls evs"
  "resize_calls (Print s # evs) = resize_calls evs"
  "resize_calls (Convert m # evs) = resize_calls evs"
  "resize_calls (Save p i # evs) = resize_calls evs"
  "resize_calls (xs @ ys) = resize_calls xs @ resize_calls ys"
  by (simp_all add: resize_calls_def)

lemma save_calls_simps:
  "save_calls [] = []"
  "save_calls (Save p i # evs) = (p, i) # save_calls evs"
  "save_calls (ImageOpen f # evs) = save_calls evs"
  "save_calls (Print s # evs) = save_calls evs"
  "save_calls (Convert m # evs) = save_calls evs"
  "save_calls (Resize d # evs) = save_calls evs"
  "save_calls (xs @ ys) = save_calls xs @ save_calls ys"
  by (simp_all add: save_calls_def)

lemma os_error_not_input_error: "os_error k f \<noteq> Exn FileNotFoundError (CHR ''I'' # m)"
  by (cases k) (simp_all add: os_error_def)

lemma image_open_not_input_error:
  "fst (image_open w f) \<noteq> Inl (Exn FileNotFoundError (CHR ''I'' # m))"
  by (simp add: image_open_def Let_def os_error_not_input_error
           split: option.splits node.splits content.splits)

lemma new_size_error_class:
  "new_size sz T asp = Inl e \<Longrightarrow> exn_class e = ZeroDivisionError \<or> exn_class e = OverflowError"
  by (auto simp: new_size_def scaled_def int_truediv_def int_mul_float_def float_of_int_def
                 int_of_float_def
           split: if_splits sum.splits option.splits pyfloat.splits)

lemma new_size_not_input_error: "new_size sz T asp \<noteq> Inl (Exn FileNotFoundError m)"
  using new_size_error_class[of sz T asp "Exn FileNotFoundError m"] by auto

lemma image_save_not_input_error:
  "fst (image_save w img p) \<noteq> Inl (Exn FileNotFoundError (CHR ''I'' # m))"
  by (simp add: image_save_def Let_def os_error_not_input_error
           split: option.splits sum.splits)

lemma save_downscaled_not_input_error:
  "fst (save_downscaled w d p) \<noteq> Inl (Exn FileNotFoundError (CHR ''I'' # m))"
  by (simp add: save_downscaled_def image_convert_def image_save_not_input_error)

section \<open>One file: the claims\<close>

text \<open>
  Claim C3. For every original size and every target size \<open>T\<close>, when
  \<open>maintain_aspect\<close> is false the dimensions are \<open>(T, T)\<close>, and they are what
  \<open>downscale_texture\<close> passes to the resize primitive: it calls resize once, with
  \<open>(T, T)\<close>, or it fails before it calls resize at all.
\<close>

theorem square_mode_dimensions:
  "new_size original_size target_size False = Inr (target_size, target_size) \<and>
   (\<exists>evs. events (snd (downscale_texture w input_path output_path target_size False))
             = events w @ evs \<and>
          (resize_calls evs = [(target_size, target_size)] \<or>
           resize_calls evs = [] \<and>
             isl (fst (downscale_texture w input_path output_path target_size False))))"
  apply (simp only: events_downscale_texture same_append_eq)
  apply (auto simp: new_size_def resize_calls_simps downscale_texture_unfold split: sum.splits)
  done

theorem square_mode_dimensions_witness:
  "resize_calls (events (snd (downscale_texture sample_world ''textures/c.jpg'' None 16 False)))
     = [(16, 16)]"
proof -
  have a: "\<not> isl (fst (downscale_texture sample_world ''textures/c.jpg'' None 16 False))"
    by code_simp
  have b: "events sample_world = []" by (simp add: sample_world_def)
  from square_mode_dimensions[of "(49, 49)" 16 sample_world "''textures/c.jpg''" None] a b
  show ?thesis by auto
qed

text \<open>
  Claim C8, as amended. \<open>downscale_texture\<close> fails with the error of its own check
  (\<^verbatim>\<open>FileNotFoundError\<close>, "Input file not found") exactly when nothing exists at
  the input path; the failure is fatal: the environment is left as it was, so nothing
  is opened, resized or written.
\<close>

theorem missing_input_is_fatal:
  "(fst (downscale_texture w input_path output_path target_size maintain_aspect)
      = Inl (Exn FileNotFoundError (''Input file not found: '' @ input_path)))
     = (\<not> path_exists w (Path input_path))
   \<and> (\<not> path_exists w (Path input_path) \<longrightarrow>
        snd (downscale_texture w input_path output_path target_size maintain_aspect) = w)"
  by (auto simp: downscale_texture_unfold image_open_not_input_error new_size_not_input_error
                 save_downscaled_not_input_error
           split: sum.splits)

theorem missing_input_is_fatal_witness:
  "\<not> path_exists sample_world (Path ''textures/z.png'') \<and>
   downscale_texture sample_world ''textures/z.png'' None 16 False =
     (Inl (Exn FileNotFoundError ''Input file not found: textures/z.png''), sample_world)"
proof -
  have a: "\<not> path_exists sample_world (Path ''textures/z.png'')" by code_simp
  from missing_input_is_fatal[of sample_world "''textures/z.png''" None 16 False] a
  show ?thesis by (simp add: prod_eq_iff)
qed

text \<open>
  As the claim is written it fails where the input path is an existing directory: the
  path references no file, the check passes, and the failure is the library's
  \<^verbatim>\<open>IsADirectoryError\<close>.
\<close>

theorem directory_passes_existence_check:
  "\<not> is_file sample_world (Path ''textures'') \<and>
   fst (downscale_texture sample_world ''textures'' None 16 False)
     = Inl (os_error IsADirectoryError ''textures'')"
  by code_simp

lemma downscale_texture_result:
  "fst (downscale_texture w inp out T asp) = Inr r \<Longrightarrow>
   r = str_path (output_file (Path inp) out T)"
  by (auto simp: downscale_texture_unfold split: sum.splits if_splits)

lemma save_downscaled_policy:
  "save_calls (events (snd (save_downscaled w d out))) =
     save_calls (events w) @
       [(out, if lower (path_suffix out) \<in> set [''.png'', ''.gif''] then d
              else if img_mode d = ''RGBA'' then d\<lparr>img_mode := ''RGB''\<rparr> else d)]"
  by (simp add: events_save_downscaled save_calls_simps)

lemma new_events_append:
  "events w' = events w @ evs \<Longrightarrow> new_events w w' = evs"
  by (simp add: new_events_def)

lemma save_calls_downscale_texture:
  "list_all (\<lambda>c. fst c = output_file (Path inp) out T)
     (save_calls (new_events w (snd (downscale_texture w inp out T asp))))"
proof -
  have "\<exists>evs. events (snd (downscale_texture w inp out T asp)) = events w @ evs \<and>
          list_all (\<lambda>c. fst c = output_file (Path inp) out T) (save_calls evs)"
    apply (simp only: events_downscale_texture same_append_eq)
    apply (auto simp: resize_calls_simps save_calls_simps split: sum.splits if_splits)
    done
  then obtain evs where
    a: "events (snd (downscale_texture w inp out T asp)) = events w @ evs"
    and b: "list_all (\<lambda>c. fst c = output_file (Path inp) out T) (save_calls evs)"
    by (elim exE conjE)
  from a have "new_events w (snd (downscale_texture w inp out T asp)) = evs"
    by (rule new_events_append)
  then show ?thesis using b by simp
qed

text \<open>
  Claim C7, as amended. With no explicit output path the output file is in the directory
  of the input, its name is the stem, \<open>_TxT\<close> and the extension as the input writes
  it. An explicit output path is read by \<^verbatim>\<open>Path\<close>, and what \<^verbatim>\<open>Path\<close> makes of
  it is the output file: a path that is written in the form in which \<^verbatim>\<open>pathlib\<close>
  keeps paths is used as it is given. Every save of \<open>downscale_texture\<close> goes to the
  output file, and the string that a successful call returns is the output file's. For
  target size 16, \<^verbatim>\<open>photo.png\<close> gives \<^verbatim>\<open>photo_16x16.png\<close> and \<^verbatim>\<open>photo.JPG\<close>
  gives \<^verbatim>\<open>photo_16x16.JPG\<close>.
\<close>

theorem output_path_resolution:
  "output_file (Path input_path) (Some explicit) target_size = Path explicit \<and>
   (valid_path p \<longrightarrow>
      output_file (Path input_path) (Some (str_path p)) target_size = p \<and>
      str_path (output_file (Path input_path) (Some (str_path p)) target_size) = str_path p) \<and>
   path_parent (output_file (Path input_path) None target_size) = path_parent (Path input_path) \<and>
   path_name (output_file (Path input_path) None target_size) =
     path_stem (Path input_path) @ ''_'' @ str_int target_size @ ''x'' @ str_int target_size
       @ path_suffix (Path input_path) \<and>
   (\<forall>r. fst (downscale_texture w input_path output_path target_size maintain_aspect) = Inr r
        \<longrightarrow> r = str_path (output_file (Path input_path) output_path target_size)) \<and>
   list_all (\<lambda>c. fst c = output_file (Path input_path) output_path target_size)
     (save_calls (new_events w
        (snd (downscale_texture w input_path output_path target_size maintain_aspect)))) \<and>
   str_path (output_file (Path ''photo.png'') None 16) = ''photo_16x16.png'' \<and>
   str_path (output_file (Path ''photo.JPG'') None 16) = ''photo_16x16.JPG''"
proof (intro conjI allI impI)
  show "output_file (Path input_path) (Some explicit) target_size = Path explicit"
    by (simp add: output_file_def)
  show "path_parent (output_file (Path input_path) None target_size) = path_parent (Path input_path)"
    by (simp only: output_file_default path_parent_child)
  show "path_name (output_file (Path input_path) None target_size) =
     path_stem (Path input_path) @ ''_'' @ str_int target_size @ ''x'' @ str_int target_size
       @ path_suffix (Path input_path)"
    by (simp only: output_file_default path_name_child)
  show "str_path (output_file (Path ''photo.png'') None 16) = ''photo_16x16.png''"
    by code_simp
  show "str_path (output_file (Path ''photo.JPG'') None 16) = ''photo_16x16.JPG''"
    by code_simp
  show "list_all (\<lambda>c. fst c = output_file (Path input_path) output_path target_size)
     (save_calls (new_events w
        (snd (downscale_texture w input_path output_path target_size maintain_aspect))))"
    by (rule save_calls_downscale_texture)
next
  fix r
  assume "fst (downscale_texture w input_path output_path target_size maintain_aspect) = Inr r"
  then show "r = str_path (output_file (Path input_path) output_path target_size)"
    by (rule downscale_texture_result)
next
  assume v: "valid_path p"
  then show a: "output_file (Path input_path) (Some (str_path p)) target_size = p"
    by (simp add: output_file_def Path_str_path)
  show "str_path (output_file (Path input_path) (Some (str_path p)) target_size) = str_path p"
    by (simp only: a)
qed

theorem output_path_resolution_witness:
  "fst (downscale_texture sample_world ''textures/c.jpg'' None 16 False)
     = Inr ''textures/c_16x16.jpg'' \<and>
   str_path (output_file (Path ''textures/c.jpg'') (Some ''out/small.png'') 16) = ''out/small.png''"
proof -
  have "\<not> isl (fst (downscale_texture sample_world ''textures/c.jpg'' None 16 False))"
    by code_simp
  then obtain r where r: "fst (downscale_texture sample_world ''textures/c.jpg'' None 16 False) = Inr r"
    by (cases "fst (downscale_texture sample_world ''textures/c.jpg'' None 16 False)") auto
  have d: "str_path (output_file (Path ''textures/c.jpg'') None 16) = ''textures/c_16x16.jpg''"
    by code_simp
  have v: "valid_path \<lparr>anchor = [], names = [''out'', ''small.png'']\<rparr>" by code_simp
  have s: "str_path \<lparr>anchor = [], names = [''out'', ''small.png'']\<rparr> = ''out/small.png''"
    by code_simp
  note t = output_path_resolution[of "''textures/c.jpg''" "''out.png''" 16
             "\<lparr>anchor = [], names = [''out'', ''small.png'']\<rparr>" sample_world None False]
  from t r d have a: "fst (downscale_texture sample_world ''textures/c.jpg'' None 16 False)
     = Inr ''textures/c_16x16.jpg''" by simp
  from t v have "str_path (output_file (Path ''textures/c.jpg'')
                    (Some (str_path \<lparr>anchor = [], names = [''out'', ''small.png'']\<rparr>)) 16)
                   = str_path \<lparr>anchor = [], names = [''out'', ''small.png'']\<rparr>"
    by blast
  then have b: "str_path (output_file (Path ''textures/c.jpg'') (Some ''out/small.png'') 16)
                  = ''out/small.png''"
    by (simp only: s)
  from a b show ?thesis by (intro conjI)
qed

text \<open>
  As the claim is written it fails for an explicit output path that is not in that form:
  given \<^verbatim>\<open>.//o.png\<close>, the program saves to \<^verbatim>\<open>o.png\<close> and returns
  \<^verbatim>\<open>o.png\<close>, not the string it was given.
\<close>

theorem explicit_output_path_is_normalised:
  "fst (downscale_texture sample_world ''gray.png'' (Some ''.//o.png'') 16 False) = Inr ''o.png'' \<and>
   map fst (save_calls (events (snd
      (downscale_texture sample_world ''gray.png'' (Some ''.//o.png'') 16 False))))
     = [\<lparr>anchor = [], names = [''o.png'']\<rparr>]"
  by code_simp

text \<open>
  Claim C4 says that for an extension other than \<^verbatim>\<open>.png\<close> and \<^verbatim>\<open>.gif\<close> a
  picture with an alpha channel is flattened before it is encoded. The program converts
  mode \<^verbatim>\<open>RGBA\<close> only: a grey picture with alpha (mode \<^verbatim>\<open>LA\<close>) saved as
  \<^verbatim>\<open>.jpg\<close> reaches \<^verbatim>\<open>save\<close> in mode \<^verbatim>\<open>LA\<close>, which the JPEG encoder
  refuses.
\<close>

theorem grey_alpha_not_flattened:
  "has_alpha ''LA'' \<and>
   lower (path_suffix (Path ''gray.jpg'')) \<notin> set [''.png'', ''.gif''] \<and>
   save_calls (events (snd (downscale_texture sample_world ''gray.png'' (Some ''gray.jpg'') 16 False)))
     = [(Path ''gray.jpg'', \<lparr>img_mode = ''LA'', img_size = (16, 16)\<rparr>)] \<and>
   fst (downscale_texture sample_world ''gray.png'' (Some ''gray.jpg'') 16 False)
     = Inl (Exn OSError ''cannot write mode LA as JPEG'')"
  by code_simp

section \<open>The file system\<close>

text \<open>
  Creating directories ends with the directory in place, does nothing where it is in
  place already, fails only for a file in the way, and changes neither a file nor the
  files that a directory lists.
\<close>

lemma lookup_new_dirs: "lookup (new_dirs xs) xs = Some (Dir [])"
  by (induction xs) simp_all

lemma mkdirs_Dir: "mkdirs n xs = Inr n' \<Longrightarrow> (\<exists>es. n = Dir es) \<and> (\<exists>es'. n' = Dir es')"
  by (cases n; cases xs) (auto split: option.splits sum.splits)

lemma mkdirs_creates: "mkdirs n xs = Inr n' \<Longrightarrow> \<exists>es. lookup n' xs = Some (Dir es)"
proof (induction n xs arbitrary: n' rule: mkdirs.induct)
  case (4 es x xs)
  show ?case
  proof (cases "map_of es x")
    case None
    with 4 show ?thesis by (auto simp: lookup_new_dirs map_add_def)
  next
    case (Some m)
    with 4 show ?thesis by (auto simp: update_conv' split: sum.splits)
  qed
qed simp_all

lemma mkdirs_existing: "lookup n xs = Some (Dir es) \<Longrightarrow> mkdirs n xs = Inr n"
proof (induction n xs rule: mkdirs.induct)
  case (4 es' x xs)
  then show ?case by (auto simp: update_triv split: option.splits)
qed simp_all

lemma mkdir_is_dir:
  assumes "mkdir w p = Inr w1"
  shows "is_dir w1 p" and "cwd w1 = cwd w" and "events w1 = events w"
proof -
  from assms obtain n where n: "mkdirs (fs w) (location w p) = Inr n" and w1: "w1 = w\<lparr>fs := n\<rparr>"
    by (auto simp: mkdir_def split: sum.splits)
  from mkdirs_creates[OF n] obtain es where "lookup n (location w p) = Some (Dir es)" by blast
  moreover have "location w1 p = location w p" by (simp add: location_def w1)
  ultimately show "is_dir w1 p" by (simp add: is_dir_def stat_def w1)
  show "cwd w1 = cwd w" and "events w1 = events w" by (simp_all add: w1)
qed

lemma mkdir_idempotent:
  assumes "is_dir w p" shows "mkdir w p = Inr w"
proof -
  from assms obtain es where "lookup (fs w) (location w p) = Some (Dir es)"
    by (auto simp: is_dir_def stat_def split: option.splits node.splits)
  then have "mkdirs (fs w) (location w p) = Inr (fs w)" by (rule mkdirs_existing)
  then show ?thesis by (simp add: mkdir_def)
qed

text \<open>Creating directories changes no file and no listing of files.\<close>

lemma mkdirs_preserves:
  "mkdirs n xs = Inr n' \<Longrightarrow> lookup n ys = Some (Dir es) \<Longrightarrow>
   \<exists>es' extra. lookup n' ys = Some (Dir es') \<and>
     (\<forall>x. holds_file (map_of es' x) = holds_file (map_of es x)) \<and>
     map fst es' = map fst es @ extra \<and>
     (\<forall>x \<in> set extra. \<not> holds_file (map_of es' x))"
proof (induction n xs arbitrary: n' ys es rule: mkdirs.induct)
  case (1 es0)
  then show ?case by auto
next
  case (2 c)
  then show ?case by simp
next
  case (3 c x xs)
  then show ?case by simp
next
  case (4 es0 x xs)
  show ?case
  proof (cases "map_of es0 x")
    case None
    with 4(2) have n': "n' = Dir (es0 @ [(x, new_dirs xs)])" by simp
    have nd: "\<not> holds_file (Some (new_dirs xs))"
      by (cases xs) (simp_all add: holds_file_def)
    show ?thesis
    proof (cases ys)
      case Nil
      with 4(3) have es: "es = es0" by simp
      have "\<forall>y. holds_file (map_of (es0 @ [(x, new_dirs xs)]) y) = holds_file (map_of es0 y)"
        using None nd by (auto simp: map_add_def holds_file_def split: option.splits)
      moreover have "\<not> holds_file (map_of (es0 @ [(x, new_dirs xs)]) x)"
        using None nd by (simp add: map_add_def)
      ultimately show ?thesis using Nil n' es
        by (intro exI[of _ "es0 @ [(x, new_dirs xs)]"] exI[of _ "[x]"]) simp
    next
      case (Cons y ys')
      with 4(3) None have "y \<noteq> x" by (auto split: option.splits)
      then have "lookup n' ys = lookup (Dir es0) ys"
        using n' Cons by (simp add: map_add_def split: option.splits)
      with 4(3) show ?thesis by (intro exI[of _ es] exI[of _ "[]"]) simp
    qed
  next
    case (Some m)
    with 4(2) obtain m' where m': "mkdirs m xs = Inr m'" and n': "n' = Dir (AList.update x m' es0)"
      by (auto split: sum.splits)
    from mkdirs_Dir[OF m'] have hm: "\<not> holds_file (Some m)" "\<not> holds_file (Some m')"
      by (auto simp: holds_file_def)
    show ?thesis
    proof (cases ys)
      case Nil
      with 4(3) have es: "es = es0" by simp
      have "x \<in> dom (map_of es0)" using Some by (rule domI)
      then have "x \<in> set (map fst es0)" by (simp add: dom_map_of_conv_image_fst)
      then have keys: "map fst (AList.update x m' es0) = map fst es0" by (simp add: update_keys)
      have "\<forall>y. holds_file (map_of (AList.update x m' es0) y) = holds_file (map_of es0 y)"
        using Some hm by (simp add: update_conv')
      then show ?thesis using Nil n' es keys
        by (intro exI[of _ "AList.update x m' es0"] exI[of _ "[]"]) simp
    next
      case (Cons y ys')
      show ?thesis
      proof (cases "y = x")
        case True
        with 4(3) Cons Some have "lookup m ys' = Some (Dir es)" by simp
        from 4(1)[OF Some m' this] show ?thesis
          using n' Cons True by (simp add: update_conv')
      next
        case False
        then have "lookup n' ys = lookup (Dir es0) ys"
          using n' Cons by (simp add: update_conv')
        with 4(3) show ?thesis by (intro exI[of _ es] exI[of _ "[]"]) simp
      qed
    qed
  qed
qed

lemma mkdirs_succeeds:
  "\<forall>ys. prefix ys xs \<longrightarrow> \<not> holds_file (lookup n ys) \<Longrightarrow> \<exists>n'. mkdirs n xs = Inr n'"
proof (induction n xs rule: mkdirs.induct)
  case (1 es)
  then show ?case by simp
next
  case (2 c)
  then show ?case by (auto simp: holds_file_def)
next
  case (3 c x xs)
  from 3 have "prefix [] (x # xs) \<longrightarrow> \<not> holds_file (lookup (File c) [])" by blast
  then show ?case by (simp add: holds_file_def)
next
  case (4 es x xs)
  show ?case
  proof (cases "map_of es x")
    case None
    then show ?thesis by simp
  next
    case (Some m)
    have "\<forall>ys. prefix ys xs \<longrightarrow> \<not> holds_file (lookup m ys)"
    proof (intro allI impI)
      fix ys assume "prefix ys xs"
      then have "prefix (x # ys) (x # xs)" by simp
      with 4(2) have "\<not> holds_file (lookup (Dir es) (x # ys))" by blast
      then show "\<not> holds_file (lookup m ys)" using Some by simp
    qed
    from 4(1)[OF Some this] obtain n' where "mkdirs m xs = Inr n'" by blast
    then show ?thesis using Some by simp
  qed
qed

lemma mkdir_succeeds:
  assumes "\<not> file_in_the_way w p"
  shows "\<exists>w1. mkdir w p = Inr w1"
proof -
  from assms have "\<forall>ys. prefix ys (location w p) \<longrightarrow> \<not> holds_file (lookup (fs w) ys)"
    by (auto simp: file_in_the_way_def list_ex_iff in_set_prefixes)
  from mkdirs_succeeds[OF this] show ?thesis by (auto simp: mkdir_def)
qed

lemma lookup_snoc:
  "lookup n (xs @ [x]) = (case lookup n xs of Some (Dir es) \<Rightarrow> map_of es x | _ \<Rightarrow> None)"
proof (induction n xs rule: lookup.induct)
  case (1 n)
  then show ?case by (cases n) (auto split: option.splits)
qed (auto split: option.splits)

lemma location_child: "location w (child p x) = location w p @ [x]"
  by (simp add: location_def child_def)

lemma is_file_child:
  "stat w p = Some (Dir es) \<Longrightarrow> is_file w (child p x) = holds_file (map_of es x)"
  by (simp add: is_file_def stat_def location_child lookup_snoc)

lemma image_files_Dir:
  assumes "stat w p = Some (Dir es)"
  shows "image_files w p exts =
           Inr (map (child p)
                 (filter (\<lambda>x. holds_file (map_of es x) \<and> lower (name_suffix x) \<in> set exts)
                    (map fst es)))"
proof -
  have "filter (\<lambda>f. is_file w f \<and> lower (path_suffix f) \<in> set exts) (map (\<lambda>e. child p (fst e)) es)
        = map (child p)
            (filter (\<lambda>x. holds_file (map_of es x) \<and> lower (name_suffix x) \<in> set exts) (map fst es))"
    using assms
    by (simp add: filter_map comp_def is_file_child path_suffix_def path_name_child)
  then show ?thesis using assms by (simp add: image_files_def iterdir_def)
qed

lemma image_files_mkdir:
  assumes "mkdir w q = Inr w1" and "is_dir w p"
  shows "image_files w1 p exts = image_files w p exts"
proof -
  from assms(1) obtain n where n: "mkdirs (fs w) (location w q) = Inr n" and w1: "w1 = w\<lparr>fs := n\<rparr>"
    by (auto simp: mkdir_def split: sum.splits)
  from assms(2) obtain es where es: "stat w p = Some (Dir es)"
    by (auto simp: is_dir_def split: option.splits node.splits)
  then have "lookup (fs w) (location w p) = Some (Dir es)" by (simp add: stat_def)
  from mkdirs_preserves[OF n this] obtain es' extra where
    l: "lookup n (location w p) = Some (Dir es')"
    and h: "\<forall>x. holds_file (map_of es' x) = holds_file (map_of es x)"
    and k: "map fst es' = map fst es @ extra"
    and x: "\<forall>x \<in> set extra. \<not> holds_file (map_of es' x)"
    by blast
  have "location w1 p = location w p" by (simp add: location_def w1)
  with l have es': "stat w1 p = Some (Dir es')" by (simp add: stat_def w1)
  have "filter (\<lambda>x. holds_file (map_of es' x) \<and> lower (name_suffix x) \<in> set exts) extra = []"
    using x by (simp add: filter_empty_conv)
  then show ?thesis
    by (simp add: image_files_Dir[OF es] image_files_Dir[OF es'] k h)
qed

lemma is_dir_mkdir:
  assumes "mkdir w q = Inr w1" and "is_dir w p"
  shows "is_dir w1 p"
proof -
  from assms(1) obtain n where n: "mkdirs (fs w) (location w q) = Inr n" and w1: "w1 = w\<lparr>fs := n\<rparr>"
    by (auto simp: mkdir_def split: sum.splits)
  from assms(2) obtain es where "lookup (fs w) (location w p) = Some (Dir es)"
    by (auto simp: is_dir_def stat_def split: option.splits node.splits)
  from mkdirs_preserves[OF n this] obtain es' where "lookup n (location w p) = Some (Dir es')"
    by blast
  moreover have "location w1 p = location w p" by (simp add: location_def w1)
  ultimately show ?thesis by (simp add: is_dir_def stat_def w1)
qed

section \<open>The batch\<close>

lemma process_files_attempts:
  "process_files w out T files acc =
     (acc @ succeeded (attempts w out T files),
      foldl (\<lambda>w f. after_attempt w out T f) w files)"
proof (induction files arbitrary: w acc)
  case Nil
  then show ?case by (simp add: succeeded_def)
next
  case (Cons f files)
  obtain r w1 where a: "downscale_texture w (str_path f)
          (Some (str_path (batch_output_file out f))) T False = (r, w1)"
    by (cases "downscale_texture w (str_path f) (Some (str_path (batch_output_file out f))) T False")
  show ?case
  proof (cases r)
    case (Inl e)
    with a Cons show ?thesis by (simp add: attempt_def after_attempt_def succeeded_def)
  next
    case (Inr p)
    with a Cons show ?thesis by (simp add: attempt_def after_attempt_def succeeded_def)
  qed
qed


lemma is_dir_print: "is_dir (print w s) p = is_dir w p"
  by (simp add: is_dir_def stat_def location_def print_def emit_def)

lemma batch_downscale_unfold:
  assumes "is_dir w (Path input_dir)"
    and "mkdir w (out_path (Path input_dir) output_dir T) = Inr w1"
    and "image_files w (Path input_dir) exts = Inr files"
  shows "batch_downscale w input_dir output_dir T exts =
           (if files = [] then (Inr [], print w1 (''No image files found in '' @ input_dir))
            else
              (Inr (succeeded
                      (attempts (print w1 (''Processing '' @ str_int (int (length files)) @ '' images...''))
                         (out_path (Path input_dir) output_dir T) T files)),
               print
                 (print
                    (foldl (\<lambda>w f. after_attempt w (out_path (Path input_dir) output_dir T) T f)
                       (print w1 (''Processing '' @ str_int (int (length files)) @ '' images...''))
                       files)
                    (CHR 0x0A # check_mark @ '' Processed ''
                       @ str_int (int (length (succeeded
                            (attempts (print w1 (''Processing '' @ str_int (int (length files)) @ '' images...''))
                               (out_path (Path input_dir) output_dir T) T files))))
                       @ ''/'' @ str_int (int (length files)) @ '' images''))
                 (''  Output directory: '' @ str_path (out_path (Path input_dir) output_dir T))))"
proof -
  have "image_files w1 (Path input_dir) exts = Inr files"
    using image_files_mkdir[OF assms(2,1)] assms(3) by simp
  then show ?thesis
    using assms(1,2) by (simp add: batch_downscale_def Let_def process_files_attempts)
qed

lemma out_path_default:
  "out_path p None T = child p (''downscaled_'' @ str_int T @ ''x'' @ str_int T)"
proof -
  have "valid_name (''downscaled_'' @ str_int T @ ''x'' @ str_int T)"
    by (simp add: valid_name_def str_int_no_slash)
  then show ?thesis unfolding out_path_def by (simp only: option.case joinpath_valid_name)
qed

text \<open>
  Claim C9. If the input path is not an existing directory, \<open>batch_downscale\<close>
  fails with \<^verbatim>\<open>NotADirectoryError\<close> and leaves the environment as it was: no
  output directory is created and nothing is printed.
\<close>

theorem not_a_directory_is_fatal:
  "\<not> is_dir w (Path input_dir) \<Longrightarrow>
   batch_downscale w input_dir output_dir target_size extensions =
     (Inl (Exn NotADirectoryError (''Not a directory: '' @ input_dir)), w)"
  by (simp add: batch_downscale_def)

theorem not_a_directory_is_fatal_witness:
  "\<not> is_dir sample_world (Path ''gray.png'') \<and>
   batch_downscale sample_world ''gray.png'' None 16 default_extensions =
     (Inl (Exn NotADirectoryError ''Not a directory: gray.png''), sample_world)"
proof -
  have a: "\<not> is_dir sample_world (Path ''gray.png'')" by code_simp
  from not_a_directory_is_fatal[OF a, of None 16 default_extensions] a
  show ?thesis by simp
qed

text \<open>
  A file in the way of the output directory stops a batch before any file is looked for:
  \<^verbatim>\<open>mkdir\<close> raises, and the environment is left as it was.
\<close>

lemma mkdirs_blocked:
  "prefix ys xs \<Longrightarrow> holds_file (lookup n ys) \<Longrightarrow> \<exists>k. mkdirs n xs = Inl k"
proof (induction n xs arbitrary: ys rule: mkdirs.induct)
  case (1 es)
  then show ?case by (simp add: holds_file_def)
next
  case (2 c)
  then show ?case by simp
next
  case (3 c x xs)
  then show ?case by simp
next
  case (4 es x xs)
  show ?case
  proof (cases ys)
    case Nil
    then show ?thesis using 4 by (simp add: holds_file_def)
  next
    case (Cons y ys')
    then have y: "y = x" and p: "prefix ys' xs" using 4(2) by simp_all
    show ?thesis
    proof (cases "map_of es x")
      case None
      then show ?thesis using 4(3) Cons y by (simp add: holds_file_def)
    next
      case (Some m)
      then have "holds_file (lookup m ys')" using 4(3) Cons y by simp
      from 4(1)[OF Some p this] obtain k where "mkdirs m xs = Inl k" by blast
      then show ?thesis using Some by simp
    qed
  qed
qed

lemma mkdir_blocked:
  assumes "file_in_the_way w p"
  shows "\<exists>k. mkdir w p = Inl (os_error k (str_path p))"
proof -
  from assms obtain ys where "prefix ys (location w p)" "holds_file (lookup (fs w) ys)"
    by (auto simp: file_in_the_way_def list_ex_iff in_set_prefixes)
  from mkdirs_blocked[OF this] obtain k where "mkdirs (fs w) (location w p) = Inl k" by blast
  then have "mkdir w p = Inl (os_error k (str_path p))" by (simp add: mkdir_def)
  then show ?thesis by blast
qed

lemma batch_downscale_blocked:
  assumes "is_dir w (Path input_dir)"
    and "file_in_the_way w (out_path (Path input_dir) output_dir T)"
  shows "\<exists>k. batch_downscale w input_dir output_dir T exts =
           (Inl (os_error k (str_path (out_path (Path input_dir) output_dir T))), w)"
proof -
  from mkdir_blocked[OF assms(2)] obtain k where
    "mkdir w (out_path (Path input_dir) output_dir T)
       = Inl (os_error k (str_path (out_path (Path input_dir) output_dir T)))" by blast
  then have "batch_downscale w input_dir output_dir T exts =
           (Inl (os_error k (str_path (out_path (Path input_dir) output_dir T))), w)"
    using assms(1) by (simp add: batch_downscale_def Let_def)
  then show ?thesis by blast
qed

text \<open>
  Claim C10, as amended. With an input directory in which no file matches the extensions,
  and where no regular file stands at the path of the output directory or of one of its
  ancestors, \<open>batch_downscale\<close> returns the empty list without error, and the output
  directory exists afterwards: it was created, with its missing parents, before the
  files were looked for. Creating it again changes nothing. Without an explicit output
  directory it is the directory \<^verbatim>\<open>downscaled_TxT\<close> inside the input directory.
\<close>

theorem empty_batch:
  assumes "is_dir w (Path input_dir)"
    and "\<not> file_in_the_way w (out_path (Path input_dir) output_dir target_size)"
    and "image_files w (Path input_dir) extensions = Inr []"
  shows "\<exists>w1. mkdir w (out_path (Path input_dir) output_dir target_size) = Inr w1 \<and>
           batch_downscale w input_dir output_dir target_size extensions =
             (Inr [], print w1 (''No image files found in '' @ input_dir)) \<and>
           is_dir (print w1 (''No image files found in '' @ input_dir))
             (out_path (Path input_dir) output_dir target_size) \<and>
           mkdir w1 (out_path (Path input_dir) output_dir target_size) = Inr w1 \<and>
           path_parent (out_path (Path input_dir) None target_size) = Path input_dir \<and>
           path_name (out_path (Path input_dir) None target_size) =
             ''downscaled_'' @ str_int target_size @ ''x'' @ str_int target_size"
proof -
  from mkdir_succeeds[OF assms(2)] obtain w1
    where w1: "mkdir w (out_path (Path input_dir) output_dir target_size) = Inr w1" by blast
  have d: "is_dir w1 (out_path (Path input_dir) output_dir target_size)"
    using w1 by (rule mkdir_is_dir)
  then have d': "is_dir (print w1 (''No image files found in '' @ input_dir))
                   (out_path (Path input_dir) output_dir target_size)"
    by (simp only: is_dir_print)
  have b: "batch_downscale w input_dir output_dir target_size extensions =
             (Inr [], print w1 (''No image files found in '' @ input_dir))"
    using batch_downscale_unfold[OF assms(1) w1 assms(3)] by simp
  have i: "mkdir w1 (out_path (Path input_dir) output_dir target_size) = Inr w1"
    using d by (rule mkdir_idempotent)
  show ?thesis
    using w1 b d' i by (simp only: out_path_default path_parent_child path_name_child) simp
qed

theorem empty_batch_witness:
  "fst (batch_downscale sample_world ''docs'' None 16 default_extensions) = Inr [] \<and>
   is_dir (snd (batch_downscale sample_world ''docs'' None 16 default_extensions))
     (Path ''docs/downscaled_16x16'')"
proof -
  have a: "is_dir sample_world (Path ''docs'')" by code_simp
  have b: "\<not> file_in_the_way sample_world (out_path (Path ''docs'') None 16)" by code_simp
  have c: "image_files sample_world (Path ''docs'') default_extensions = Inr []" by code_simp
  have d: "out_path (Path ''docs'') None 16 = Path ''docs/downscaled_16x16''" by code_simp
  from empty_batch[OF a b c] show ?thesis by (auto simp: d)
qed

text \<open>
  As the claim is written it fails where a regular file has the name of the output
  directory: in a directory without pictures that holds a file \<^verbatim>\<open>downscaled_16x16\<close>,
  the batch with the default output directory raises \<^verbatim>\<open>FileExistsError\<close>
  instead of returning the empty list.
\<close>

theorem empty_batch_blocked:
  "is_dir blocked_world (Path ''icons'') \<and>
   image_files blocked_world (Path ''icons'') default_extensions = Inr [] \<and>
   batch_downscale blocked_world ''icons'' None 16 default_extensions =
     (Inl (Exn FileExistsError
             (''[Errno 17] File exists: '' @ quote ''icons/downscaled_16x16'')), blocked_world)"
  by code_simp

section \<open>The batch: file by file\<close>


lemma valid_path_batch_output_file:
  "valid_path out \<Longrightarrow> valid_path (batch_output_file out f)"
  by (simp add: batch_output_file_def valid_path_joinpath)

lemma output_file_batch:
  "valid_path out \<Longrightarrow>
   output_file p (Some (str_path (batch_output_file out f))) T = batch_output_file out f"
  by (simp add: output_file_def Path_str_path valid_path_batch_output_file)

lemma attempt_result:
  assumes "valid_path out" and "fst (attempt w out T f) = Inr r"
  shows "r = str_path (batch_output_file out f)"
  using downscale_texture_result[of w "str_path f" "Some (str_path (batch_output_file out f))" T False r]
        assms
  by (simp add: attempt_def output_file_batch)




lemma succeeded_Cons:
  "succeeded ((f, r) # rs) = (case r of Inr p \<Rightarrow> [p] | Inl e \<Rightarrow> []) @ succeeded rs"
  by (simp add: succeeded_def)

lemma succeeded_attempts:
  assumes "valid_path out"
  shows "set (succeeded (attempts w out T files))
           \<subseteq> (\<lambda>f. str_path (batch_output_file out f)) ` set files"
proof (induction files arbitrary: w)
  case Nil
  then show ?case by (simp add: succeeded_def)
next
  case (Cons f files)
  show ?case
  proof (cases "fst (attempt w out T f)")
    case (Inl e)
    then show ?thesis using Cons[of "after_attempt w out T f"]
      by (auto simp: succeeded_Cons)
  next
    case (Inr p)
    then have "p = str_path (batch_output_file out f)"
      using attempt_result[OF assms] by blast
    then show ?thesis using Inr Cons[of "after_attempt w out T f"]
      by (auto simp: succeeded_Cons)
  qed
qed

lemma valid_path_out_path: "valid_path (out_path (Path d) od T)"
  by (cases od) (simp_all add: out_path_def valid_path_Path valid_path_joinpath)

lemma batch_output_file_child:
  assumes "valid_name (path_name f)"
  shows "batch_output_file out f = child out (path_name f)"
  using assms by (simp add: batch_output_file_def path_stem_suffix joinpath_valid_name)

lemma main_ignores_keep_aspect:
  "arg_batch a \<Longrightarrow> main w (a\<lparr>arg_keep_aspect := b\<rparr>) = main w a"
  by (simp add: main_def)

text \<open>The batch on the sample environment, evaluated.\<close>

lemma sample_files:
  "image_files sample_world (Path ''textures'') default_extensions =
     Inr [Path ''textures/a.png'', Path ''textures/b.PNG'', Path ''textures/c.jpg'']"
  by code_simp

lemma sample_dir: "is_dir sample_world (Path ''textures'')"
  by code_simp

lemma sample_free: "\<not> file_in_the_way sample_world (out_path (Path ''textures'') None 16)"
  by code_simp



lemma sample_batch_calls:
  "resize_calls (events (snd (batch_downscale sample_world ''textures'' None 16 default_extensions)))
     = [(16, 16), (16, 16)] \<and>
   map fst (save_calls (events (snd (batch_downscale sample_world ''textures'' None 16
                                        default_extensions))))
     = [Path ''textures/downscaled_16x16/a.png'', Path ''textures/downscaled_16x16/c.jpg'']"
  by code_simp

section \<open>The batch: the claims\<close>



text \<open>
  The loop, run by run: what each attempt adds to the record is determined by whether the
  file decodes in the environment the attempt starts in.
\<close>

lemma image_open_exists:
  "fst (image_open w inp) = Inr img \<Longrightarrow> path_exists w (Path inp)"
  by (auto simp: image_open_def Let_def path_exists_def
           split: option.splits node.splits content.splits if_splits)

lemma segment_of_attempt:
  assumes "valid_path out"
  shows "\<exists>evs. events (after_attempt w out T f) = events w @ evs \<and>
           resize_calls evs =
             (case fst (image_open w (str_path f)) of Inl e \<Rightarrow> [] | Inr img \<Rightarrow> [(T, T)]) \<and>
           map fst (save_calls evs) =
             (case fst (image_open w (str_path f)) of
                Inl e \<Rightarrow> []
              | Inr img \<Rightarrow> if T < 1 then [] else [batch_output_file out f]) \<and>
           list_all (\<lambda>c. img_size (snd c) = (T, T)) (save_calls evs)"
proof -
  let ?inp = "str_path f" and ?o = "Some (str_path (batch_output_file out f))"
  obtain r w1 where a: "downscale_texture w ?inp ?o T False = (r, w1)"
    by (cases "downscale_texture w ?inp ?o T False")
  have ev: "events w1 = events (snd (downscale_texture w ?inp ?o T False))" using a by simp
  show ?thesis
  proof (cases r)
    case (Inl e)
    have "events (after_attempt w out T f) = events w1 @ [Print (error_line f e)]"
      using a Inl by (simp add: after_attempt_def attempt_def events_print)
    then show ?thesis
      unfolding ev
      apply (simp only: events_downscale_texture append_assoc same_append_eq)
      apply (auto simp: output_file_batch[OF assms] new_size_def resize_calls_simps save_calls_simps
                        image_open_exists
                  split: sum.splits if_splits)
      done
  next
    case (Inr p)
    have "events (after_attempt w out T f) = events w1"
      using a Inr by (simp add: after_attempt_def attempt_def)
    then show ?thesis
      unfolding ev
      apply (simp only: events_downscale_texture same_append_eq)
      apply (auto simp: output_file_batch[OF assms] new_size_def resize_calls_simps save_calls_simps
                        image_open_exists
                  split: sum.splits if_splits)
      done
  qed
qed

lemma map_fst_runs: "map fst (runs w out T files) = files"
  by (induction files arbitrary: w) simp_all

lemma resize_calls_append: "resize_calls (xs @ ys) = resize_calls xs @ resize_calls ys"
  by (simp add: resize_calls_def)

lemma save_calls_append: "save_calls (xs @ ys) = save_calls xs @ save_calls ys"
  by (simp add: save_calls_def)

lemma events_runs:
  assumes "valid_path out"
  shows "\<exists>evs. events (foldl (\<lambda>w f. after_attempt w out T f) w files) = events w @ evs \<and>
           resize_calls evs =
             concat (map (\<lambda>(f, wf). case fst (image_open wf (str_path f)) of
                                        Inl e \<Rightarrow> [] | Inr img \<Rightarrow> [(T, T)])
                       (runs w out T files)) \<and>
           map fst (save_calls evs) =
             concat (map (\<lambda>(f, wf). case fst (image_open wf (str_path f)) of
                                        Inl e \<Rightarrow> []
                                      | Inr img \<Rightarrow> if T < 1 then [] else [batch_output_file out f])
                       (runs w out T files)) \<and>
           list_all (\<lambda>c. img_size (snd c) = (T, T)) (save_calls evs)"
proof (induction files arbitrary: w)
  case Nil
  then show ?case by (simp add: resize_calls_simps save_calls_simps)
next
  case (Cons f files)
  from segment_of_attempt[OF assms, of w T f] obtain e1 where
    a: "events (after_attempt w out T f) = events w @ e1"
    and b: "resize_calls e1 =
             (case fst (image_open w (str_path f)) of Inl e \<Rightarrow> [] | Inr img \<Rightarrow> [(T, T)])"
    and c: "map fst (save_calls e1) =
             (case fst (image_open w (str_path f)) of
                Inl e \<Rightarrow> []
              | Inr img \<Rightarrow> if T < 1 then [] else [batch_output_file out f])"
    and d: "list_all (\<lambda>c. img_size (snd c) = (T, T)) (save_calls e1)"
    by (elim exE conjE)
  from Cons.IH[of "after_attempt w out T f"] obtain e2 where
    a2: "events (foldl (\<lambda>w f. after_attempt w out T f) (after_attempt w out T f) files)
           = events (after_attempt w out T f) @ e2"
    and b2: "resize_calls e2 =
             concat (map (\<lambda>(f, wf). case fst (image_open wf (str_path f)) of
                                        Inl e \<Rightarrow> [] | Inr img \<Rightarrow> [(T, T)])
                       (runs (after_attempt w out T f) out T files))"
    and c2: "map fst (save_calls e2) =
             concat (map (\<lambda>(f, wf). case fst (image_open wf (str_path f)) of
                                        Inl e \<Rightarrow> []
                                      | Inr img \<Rightarrow> if T < 1 then [] else [batch_output_file out f])
                       (runs (after_attempt w out T f) out T files))"
    and d2: "list_all (\<lambda>c. img_size (snd c) = (T, T)) (save_calls e2)"
    by (elim exE conjE)
  show ?case
    apply (rule exI[of _ "e1 @ e2"])
    apply (simp only: resize_calls_append save_calls_append map_append list_all_append
                      b c d b2 c2 d2 runs.simps list.map concat.simps case_prod_conv
                      foldl_Cons a2 a append_assoc)
    done
qed

lemma succeeded_runs:
  assumes "valid_path out"
  shows "succeeded (attempts w out T files) =
           concat (map (\<lambda>(f, wf). case fst (attempt wf out T f) of
                                      Inl e \<Rightarrow> []
                                    | Inr p \<Rightarrow> [str_path (batch_output_file out f)])
                     (runs w out T files))"
proof (induction files arbitrary: w)
  case Nil
  then show ?case by (simp add: succeeded_def)
next
  case (Cons f files)
  show ?case
  proof (cases "fst (attempt w out T f)")
    case (Inl e)
    then show ?thesis using Cons.IH[of "after_attempt w out T f"]
      by (simp add: succeeded_def)
  next
    case (Inr p)
    then have "p = str_path (batch_output_file out f)" using attempt_result[OF assms] by blast
    then show ?thesis using Inr Cons.IH[of "after_attempt w out T f"]
      by (simp add: succeeded_def)
  qed
qed

lemma main_batch:
  "main w \<lparr>arg_input = d, arg_output = od, arg_size = T, arg_batch = True, arg_keep_aspect = b\<rparr> =
     (case batch_downscale w d od T default_extensions of
        (Inl e, w1) \<Rightarrow> (1, print w1 (''Error: '' @ str_exn e))
      | (Inr outputs, w1) \<Rightarrow> (0, w1))"
  by (simp add: main_def)

text \<open>
  Claim C5. In a batch that reaches its files, each matching file is run once, in
  discovery order. A file that decodes gets exactly one resize, with the square
  dimensions \<open>(T, T)\<close>, and (for \<open>T\<close> at least 1) exactly one save, to its own
  output file, of a picture of that size; a file that does not decode gets neither. There
  are no other resizes or saves. The paths returned are the output files of the attempts
  that succeeded, each file's own. The output file of a file lies in the output directory
  under the name of the file, stem and extension, with no size in it. \<^verbatim>\<open>main\<close> in
  batch mode is this batch, whatever the flag \<^verbatim>\<open>--keep-aspect\<close>.
\<close>

theorem batch_names_and_mode:
  assumes "is_dir w (Path input_dir)"
    and "\<not> file_in_the_way w (out_path (Path input_dir) output_dir target_size)"
    and "image_files w (Path input_dir) extensions = Inr files"
    and "files \<noteq> []"
  shows "\<exists>w1. mkdir w (out_path (Path input_dir) output_dir target_size) = Inr w1 \<and>
     map fst (runs (print w1 (''Processing '' @ str_int (int (length files)) @ '' images...''))
                (out_path (Path input_dir) output_dir target_size) target_size files) = files \<and>
     resize_calls
         (new_events w (snd (batch_downscale w input_dir output_dir target_size extensions))) =
       concat (map (\<lambda>(f, wf). case fst (image_open wf (str_path f)) of
                                  Inl e \<Rightarrow> []
                                | Inr img \<Rightarrow> [(target_size, target_size)])
                 (runs (print w1 (''Processing '' @ str_int (int (length files)) @ '' images...''))
                    (out_path (Path input_dir) output_dir target_size) target_size files)) \<and>
     map fst (save_calls
         (new_events w (snd (batch_downscale w input_dir output_dir target_size extensions)))) =
       concat (map (\<lambda>(f, wf). case fst (image_open wf (str_path f)) of
                                  Inl e \<Rightarrow> []
                                | Inr img \<Rightarrow>
                                    if target_size < 1 then []
                                    else [batch_output_file
                                            (out_path (Path input_dir) output_dir target_size) f])
                 (runs (print w1 (''Processing '' @ str_int (int (length files)) @ '' images...''))
                    (out_path (Path input_dir) output_dir target_size) target_size files)) \<and>
     list_all (\<lambda>c. img_size (snd c) = (target_size, target_size))
       (save_calls
          (new_events w (snd (batch_downscale w input_dir output_dir target_size extensions)))) \<and>
     fst (batch_downscale w input_dir output_dir target_size extensions) =
       Inr (concat (map (\<lambda>(f, wf).
                           case fst (attempt wf (out_path (Path input_dir) output_dir target_size)
                                       target_size f) of
                             Inl e \<Rightarrow> []
                           | Inr p \<Rightarrow>
                               [str_path (batch_output_file
                                            (out_path (Path input_dir) output_dir target_size) f)])
                      (runs (print w1 (''Processing '' @ str_int (int (length files)) @ '' images...''))
                         (out_path (Path input_dir) output_dir target_size) target_size files))) \<and>
     (\<forall>f \<in> set files. valid_name (path_name f) \<longrightarrow>
        path_parent (batch_output_file (out_path (Path input_dir) output_dir target_size) f)
          = out_path (Path input_dir) output_dir target_size \<and>
        path_name (batch_output_file (out_path (Path input_dir) output_dir target_size) f)
          = path_stem f @ path_suffix f \<and>
        path_stem f @ path_suffix f = path_name f) \<and>
     (\<forall>b. extensions = default_extensions \<longrightarrow>
        main w \<lparr>arg_input = input_dir, arg_output = output_dir, arg_size = target_size,
                arg_batch = True, arg_keep_aspect = b\<rparr>
          = (0, snd (batch_downscale w input_dir output_dir target_size extensions)))"
proof -
  let ?out = "out_path (Path input_dir) output_dir target_size"
  let ?line = "''Processing '' @ str_int (int (length files)) @ '' images...''"
  from mkdir_succeeds[OF assms(2)] obtain w1 where w1: "mkdir w ?out = Inr w1" by blast
  have ev1: "events w1 = events w" using w1 by (rule mkdir_is_dir)
  note b = batch_downscale_unfold[OF assms(1) w1 assms(3)]
  let ?rs = "runs (print w1 ?line) ?out target_size files"
  have names: "\<forall>f \<in> set files. valid_name (path_name f) \<longrightarrow>
              path_parent (batch_output_file ?out f) = ?out \<and>
              path_name (batch_output_file ?out f) = path_stem f @ path_suffix f \<and>
              path_stem f @ path_suffix f = path_name f"
    by (simp add: batch_output_file_child path_parent_child path_name_child path_stem_suffix)
  from events_runs[where out = "?out" and T = target_size and w = "print w1 ?line"
                   and files = files, OF valid_path_out_path]
  obtain evs where
    e: "events (foldl (\<lambda>w f. after_attempt w ?out target_size f) (print w1 ?line) files)
          = events (print w1 ?line) @ evs"
    and r: "resize_calls evs =
             concat (map (\<lambda>(f, wf). case fst (image_open wf (str_path f)) of
                                        Inl e \<Rightarrow> [] | Inr img \<Rightarrow> [(target_size, target_size)]) ?rs)"
    and s: "map fst (save_calls evs) =
             concat (map (\<lambda>(f, wf). case fst (image_open wf (str_path f)) of
                                        Inl e \<Rightarrow> []
                                      | Inr img \<Rightarrow> if target_size < 1 then []
                                                   else [batch_output_file ?out f]) ?rs)"
    and z: "list_all (\<lambda>c. img_size (snd c) = (target_size, target_size)) (save_calls evs)"
    by (elim exE conjE)
  define rs where "rs = attempts (print w1 ?line) ?out target_size files"
  define tail where "tail =
     [Print (CHR 0x0A # check_mark @ '' Processed ''
               @ str_int (int (length (succeeded rs))) @ ''/''
               @ str_int (int (length files)) @ '' images''),
      Print (''  Output directory: '' @ str_path ?out)]"
  have res: "fst (batch_downscale w input_dir output_dir target_size extensions)
               = Inr (succeeded rs)"
    using b assms(4) by (simp add: rs_def)
  have res': "fst (batch_downscale w input_dir output_dir target_size extensions) =
       Inr (concat (map (\<lambda>(f, wf).
                           case fst (attempt wf ?out target_size f) of
                             Inl e \<Rightarrow> []
                           | Inr p \<Rightarrow> [str_path (batch_output_file ?out f)]) ?rs))"
    unfolding res rs_def by (simp only: succeeded_runs[OF valid_path_out_path])
  have evs: "events (snd (batch_downscale w input_dir output_dir target_size extensions))
               = events w @ ([Print ?line] @ evs @ tail)"
    using b assms(4) e by (simp add: events_print ev1 rs_def tail_def)
  have ne: "new_events w (snd (batch_downscale w input_dir output_dir target_size extensions))
              = [Print ?line] @ evs @ tail"
    using evs by (rule new_events_append)
  have r': "resize_calls ([Print ?line] @ evs @ tail) = resize_calls evs"
    by (simp add: resize_calls_append resize_calls_simps tail_def)
  have s': "save_calls ([Print ?line] @ evs @ tail) = save_calls evs"
    by (simp add: save_calls_append save_calls_simps tail_def)
  have mn: "\<forall>b. extensions = default_extensions \<longrightarrow>
        main w \<lparr>arg_input = input_dir, arg_output = output_dir, arg_size = target_size,
                arg_batch = True, arg_keep_aspect = b\<rparr>
          = (0, snd (batch_downscale w input_dir output_dir target_size extensions))"
    using res by (auto simp: main_batch split: prod.splits sum.splits)
  show ?thesis
    apply (rule exI[of _ w1])
    apply (simp only: ne r' s')
    apply (intro conjI)
           apply (rule w1)
          apply (rule map_fst_runs)
         apply (rule r)
        apply (rule s)
       apply (rule z)
      apply (rule res')
     apply (rule names)
    apply (rule mn)
    done
qed

theorem batch_names_and_mode_witness:
  "resize_calls (new_events sample_world
      (snd (batch_downscale sample_world ''textures'' None 16 default_extensions)))
     = [(16, 16), (16, 16)] \<and>
   map fst (save_calls (new_events sample_world
      (snd (batch_downscale sample_world ''textures'' None 16 default_extensions))))
     = [Path ''textures/downscaled_16x16/a.png'', Path ''textures/downscaled_16x16/c.jpg''] \<and>
   fst (batch_downscale sample_world ''textures'' None 16 default_extensions)
     = Inr [''textures/downscaled_16x16/a.png'', ''textures/downscaled_16x16/c.jpg''] \<and>
   main sample_world \<lparr>arg_input = ''textures'', arg_output = None, arg_size = 16,
                       arg_batch = True, arg_keep_aspect = True\<rparr>
     = (0, snd (batch_downscale sample_world ''textures'' None 16 default_extensions)) \<and>
   path_parent (batch_output_file (out_path (Path ''textures'') None 16) (Path ''textures/c.jpg''))
     = Path ''textures/downscaled_16x16'' \<and>
   path_name (batch_output_file (out_path (Path ''textures'') None 16) (Path ''textures/c.jpg''))
     = ''c.jpg''"
proof -
  let ?files = "[Path ''textures/a.png'', Path ''textures/b.PNG'', Path ''textures/c.jpg'']"
  let ?out = "out_path (Path ''textures'') None 16"
  let ?b = "batch_downscale sample_world ''textures'' None 16 default_extensions"
  have ne: "?files \<noteq> []" by simp
  from batch_names_and_mode[OF sample_dir sample_free sample_files ne]
  obtain w1 where
    m: "mkdir sample_world ?out = Inr w1"
    and r: "resize_calls (new_events sample_world (snd ?b)) =
       concat (map (\<lambda>(f, wf). case fst (image_open wf (str_path f)) of
                                  Inl e \<Rightarrow> []
                                | Inr img \<Rightarrow> [(16, 16)])
                 (runs (print w1 (''Processing '' @ str_int (int (length ?files)) @ '' images...''))
                    ?out 16 ?files))"
    and s: "map fst (save_calls (new_events sample_world (snd ?b))) =
       concat (map (\<lambda>(f, wf). case fst (image_open wf (str_path f)) of
                                  Inl e \<Rightarrow> []
                                | Inr img \<Rightarrow>
                                    if (16::int) < 1 then []
                                    else [batch_output_file ?out f])
                 (runs (print w1 (''Processing '' @ str_int (int (length ?files)) @ '' images...''))
                    ?out 16 ?files))"
    and res: "fst ?b =
       Inr (concat (map (\<lambda>(f, wf).
                           case fst (attempt wf ?out 16 f) of
                             Inl e \<Rightarrow> []
                           | Inr p \<Rightarrow> [str_path (batch_output_file ?out f)])
                      (runs (print w1 (''Processing '' @ str_int (int (length ?files)) @ '' images...''))
                         ?out 16 ?files)))"
    and names: "\<forall>f \<in> set ?files. valid_name (path_name f) \<longrightarrow>
        path_parent (batch_output_file ?out f) = ?out \<and>
        path_name (batch_output_file ?out f) = path_stem f @ path_suffix f \<and>
        path_stem f @ path_suffix f = path_name f"
    and mn: "\<forall>b. default_extensions = default_extensions \<longrightarrow>
        main sample_world \<lparr>arg_input = ''textures'', arg_output = None, arg_size = 16,
                arg_batch = True, arg_keep_aspect = b\<rparr> = (0, snd ?b)"
    by (elim exE conjE)
  have w1: "w1 = projr (mkdir sample_world ?out)" using m by simp
  have r1: "concat (map (\<lambda>(f, wf). case fst (image_open wf (str_path f)) of
                                  Inl e \<Rightarrow> []
                                | Inr img \<Rightarrow> [(16::int, 16::int)])
                 (runs (print (projr (mkdir sample_world ?out))
                          (''Processing '' @ str_int (int (length ?files)) @ '' images...''))
                    ?out 16 ?files)) = [(16, 16), (16, 16)]"
    by code_simp
  have s1: "concat (map (\<lambda>(f, wf). case fst (image_open wf (str_path f)) of
                                  Inl e \<Rightarrow> []
                                | Inr img \<Rightarrow>
                                    if (16::int) < 1 then []
                                    else [batch_output_file ?out f])
                 (runs (print (projr (mkdir sample_world ?out))
                          (''Processing '' @ str_int (int (length ?files)) @ '' images...''))
                    ?out 16 ?files))
        = [Path ''textures/downscaled_16x16/a.png'', Path ''textures/downscaled_16x16/c.jpg'']"
    by code_simp
  have res1: "concat (map (\<lambda>(f, wf).
                           case fst (attempt wf ?out 16 f) of
                             Inl e \<Rightarrow> []
                           | Inr p \<Rightarrow> [str_path (batch_output_file ?out f)])
                      (runs (print (projr (mkdir sample_world ?out))
                          (''Processing '' @ str_int (int (length ?files)) @ '' images...''))
                         ?out 16 ?files))
        = [''textures/downscaled_16x16/a.png'', ''textures/downscaled_16x16/c.jpg'']"
    by code_simp
  have v: "valid_name (path_name (Path ''textures/c.jpg''))" by code_simp
  have o: "?out = Path ''textures/downscaled_16x16''" by code_simp
  have n: "path_stem (Path ''textures/c.jpg'') @ path_suffix (Path ''textures/c.jpg'') = ''c.jpg''"
    by code_simp
  from names v have
    "path_parent (batch_output_file ?out (Path ''textures/c.jpg'')) = ?out"
    "path_name (batch_output_file ?out (Path ''textures/c.jpg''))
       = path_stem (Path ''textures/c.jpg'') @ path_suffix (Path ''textures/c.jpg'')"
    by simp_all
  then have nm: "path_parent (batch_output_file ?out (Path ''textures/c.jpg''))
                   = Path ''textures/downscaled_16x16''"
    "path_name (batch_output_file ?out (Path ''textures/c.jpg'')) = ''c.jpg''"
    using o n by simp_all
  have r2: "resize_calls (new_events sample_world (snd ?b)) = [(16, 16), (16, 16)]"
    using r r1 unfolding w1 by simp
  have s2: "map fst (save_calls (new_events sample_world (snd ?b)))
      = [Path ''textures/downscaled_16x16/a.png'', Path ''textures/downscaled_16x16/c.jpg'']"
    using s s1 unfolding w1 by simp
  have res2: "fst ?b = Inr [''textures/downscaled_16x16/a.png'', ''textures/downscaled_16x16/c.jpg'']"
    using res res1 unfolding w1 by simp
  from mn have m2: "main sample_world \<lparr>arg_input = ''textures'', arg_output = None, arg_size = 16,
                arg_batch = True, arg_keep_aspect = True\<rparr> = (0, snd ?b)"
    by simp
  show ?thesis using r2 s2 res2 m2 nm by (intro conjI)
qed

end
